theory Spec2Isabelle
  imports Complex_Main
begin

section \<open>Values of the provider's JSON records\<close>

text \<open>
  The service (\<^verbatim>\<open>src/index.ts\<close>) receives the provider's dataset as parsed JSON of
  unknown shape. A JavaScript number is a finite value, \<^verbatim>\<open>NaN\<close> or an infinity; the
  normaliser only tests and copies numbers, so a finite number is represented by the real
  it denotes. Strings are character lists over code points below 256.
\<close>

datatype jsnum = Finite real | NaN | PosInfinity | NegInfinity

datatype jsval =
    JUndefined
  | JNull
  | JBool bool
  | JNum jsnum
  | JStr string
  | JArr "jsval list"
  | JObj "(string \<times> jsval) list"

text \<open>
  Reading a property throws a \<^verbatim>\<open>TypeError\<close> on \<^verbatim>\<open>null\<close> and \<^verbatim>\<open>undefined\<close>. On an
  object it yields the stored value or \<^verbatim>\<open>undefined\<close>. None of the names the normaliser
  reads (\<^verbatim>\<open>title\<close>, \<^verbatim>\<open>location\<close>, \<^verbatim>\<open>lat\<close>, ...) is a built-in property of a string,
  number, boolean or array, so there the read yields \<^verbatim>\<open>undefined\<close>.
\<close>

datatype js_error = TypeError string | Error string

fun get_prop :: "jsval \<Rightarrow> string \<Rightarrow> js_error + jsval" where
  "get_prop JUndefined k = Inl (TypeError (''Cannot read properties of undefined (reading '' @ k @ '')''))"
| "get_prop JNull k = Inl (TypeError (''Cannot read properties of null (reading '' @ k @ '')''))"
| "get_prop (JObj kvs) k = Inr (case map_of kvs k of None \<Rightarrow> JUndefined | Some v \<Rightarrow> v)"
| "get_prop v k = Inr JUndefined"

text \<open>\<^verbatim>\<open>a ?? b\<close>\<close>

fun nullish :: "jsval \<Rightarrow> jsval \<Rightarrow> jsval" where
  "nullish JUndefined d = d"
| "nullish JNull d = d"
| "nullish v d = v"

text \<open>\<^verbatim>\<open>Array.isArray(v) ? v : []\<close> followed by \<^verbatim>\<open>[0]\<close>\<close>

fun array_or_empty :: "jsval \<Rightarrow> jsval list" where
  "array_or_empty (JArr xs) = xs"
| "array_or_empty v = []"

fun first_element :: "jsval list \<Rightarrow> jsval" where
  "first_element [] = JUndefined"
| "first_element (x # xs) = x"

text \<open>Sequencing of a step that may throw.\<close>

definition and_then :: "'e + 'a \<Rightarrow> ('a \<Rightarrow> 'e + 'b) \<Rightarrow> 'e + 'b" where
  "and_then r f = (case r of Inl e \<Rightarrow> Inl e | Inr v \<Rightarrow> f v)"

fun map_throwing :: "('a \<Rightarrow> 'e + 'b) \<Rightarrow> 'a list \<Rightarrow> 'e + 'b list" where
  "map_throwing f [] = Inr []"
| "map_throwing f (x # xs) =
     and_then (f x) (\<lambda>y. and_then (map_throwing f xs) (\<lambda>ys. Inr (y # ys)))"

section \<open>The canonical lead and the provider normaliser\<close>

record LeadPayload =
  business_name :: "string option"
  address :: "string option"
  phone :: "string option"
  website :: "string option"
  email :: "string option"
  rating :: "real option"
  reviews_count :: "real option"
  category :: "string option"
  latitude :: "real option"
  longitude :: "real option"

fun parseNumber :: "jsval \<Rightarrow> real option" where
  "parseNumber (JNum (Finite r)) = Some r"
| "parseNumber v = None"

text \<open>
  \<^verbatim>\<open>String.prototype.trim\<close> removes white space and line terminators from both ends;
  below code point 256 these are tab, line feed, vertical tab, form feed, carriage return,
  space and the no-break space.
\<close>

definition is_white_space :: "char \<Rightarrow> bool" where
  "is_white_space c =
     (c \<in> set [CHR 0x09, CHR 0x0A, CHR 0x0B, CHR 0x0C, CHR 0x0D, CHR 0x20, CHR 0xA0])"

definition trim :: "string \<Rightarrow> string" where
  "trim s = rev (dropWhile is_white_space (rev (dropWhile is_white_space s)))"

fun asStringOrNull :: "jsval \<Rightarrow> string option" where
  "asStringOrNull (JStr s) = (if length (trim s) > 0 then Some s else None)"
| "asStringOrNull v = None"

definition normalizeItem :: "jsval \<Rightarrow> js_error + LeadPayload" where
  "normalizeItem raw =
    (let item = nullish raw (JObj []) in
     and_then (get_prop item ''location'') (\<lambda>loc.
     let location = nullish loc (JObj []) in
     and_then (get_prop item ''categories'') (\<lambda>cats.
     let categories = array_or_empty cats in
     and_then (get_prop item ''title'') (\<lambda>title.
     and_then (get_prop item ''address'') (\<lambda>addr.
     and_then (get_prop item ''phone'') (\<lambda>ph.
     and_then (get_prop item ''website'') (\<lambda>site.
     and_then (get_prop item ''email'') (\<lambda>mail.
     and_then (get_prop item ''totalScore'') (\<lambda>totalScore.
     and_then (get_prop item ''reviewsCount'') (\<lambda>reviewsCount.
     and_then (get_prop location ''lat'') (\<lambda>lat.
     and_then (get_prop location ''lng'') (\<lambda>lng.
     Inr \<lparr> business_name = asStringOrNull title,
           address = asStringOrNull addr,
           phone = asStringOrNull ph,
           website = asStringOrNull site,
           email = asStringOrNull mail,
           rating = parseNumber totalScore,
           reviews_count = parseNumber reviewsCount,
           category = asStringOrNull (first_element categories),
           latitude = parseNumber lat,
           longitude = parseNumber lng \<rparr>))))))))))))"

definition normalizeApifyLeads :: "jsval list \<Rightarrow> js_error + LeadPayload list" where
  "normalizeApifyLeads items = map_throwing normalizeItem items"

text \<open>
  The value a record offers under a name when everything that is not an object (a missing
  or \<^verbatim>\<open>null\<close> record, a string, a number) counts as the empty object.
\<close>

fun field_of :: "jsval \<Rightarrow> string \<Rightarrow> jsval" where
  "field_of (JObj kvs) k = (case map_of kvs k of None \<Rightarrow> JUndefined | Some v \<Rightarrow> v)"
| "field_of v k = JUndefined"

definition normalized :: "jsval \<Rightarrow> LeadPayload" where
  "normalized raw =
     \<lparr> business_name = asStringOrNull (field_of raw ''title''),
       address = asStringOrNull (field_of raw ''address''),
       phone = asStringOrNull (field_of raw ''phone''),
       website = asStringOrNull (field_of raw ''website''),
       email = asStringOrNull (field_of raw ''email''),
       rating = parseNumber (field_of raw ''totalScore''),
       reviews_count = parseNumber (field_of raw ''reviewsCount''),
       category = asStringOrNull (first_element (array_or_empty (field_of raw ''categories''))),
       latitude = parseNumber (field_of (field_of raw ''location'') ''lat''),
       longitude = parseNumber (field_of (field_of raw ''location'') ''lng'') \<rparr>"

definition cafe_x :: jsval where
  "cafe_x = JObj [(''title'', JStr ''Cafe X''),
                  (''location'', JObj [(''lat'', JNum (Finite 1.5)), (''lng'', JNum (Finite 2.5))]),
                  (''categories'', JArr [JStr ''cafe'']),
                  (''totalScore'', JNum (Finite 4.2))]"

subsection \<open>Facts about the normaliser\<close>

lemma get_prop_nullish:
  "get_prop (nullish v (JObj [])) k = Inr (field_of v k)"
  by (cases v) simp_all

lemma field_of_nullish:
  "field_of (nullish v (JObj [])) k = field_of v k"
  by (cases v) simp_all

lemma normalizeItem_total: "normalizeItem raw = Inr (normalized raw)"
  by (simp add: normalizeItem_def normalized_def Let_def and_then_def get_prop_nullish
      field_of_nullish)

lemma map_throwing_total:
  "(\<And>x. f x = Inr (g x)) \<Longrightarrow> map_throwing f xs = Inr (map g xs)"
  by (induction xs) (simp_all add: and_then_def)

lemma normalizeApifyLeads_total:
  "normalizeApifyLeads items = Inr (map normalized items)"
  unfolding normalizeApifyLeads_def
  by (rule map_throwing_total) (rule normalizeItem_total)

lemma parseNumber_None: "(\<forall>r. v \<noteq> JNum (Finite r)) \<Longrightarrow> parseNumber v = None"
  by (cases v rule: parseNumber.cases) simp_all

lemma asStringOrNull_None: "(\<forall>s. v = JStr s \<longrightarrow> s = []) \<Longrightarrow> asStringOrNull v = None"
  by (cases v) (simp_all add: trim_def)

lemma asStringOrNull_Some: "asStringOrNull v = Some s \<Longrightarrow> v = JStr s \<and> s \<noteq> []"
  by (cases v) (auto simp: trim_def split: if_splits)

lemma normalized_cafe_x:
  "normalized cafe_x =
     \<lparr> business_name = Some ''Cafe X'', address = None, phone = None, website = None,
       email = None, rating = Some 4.2, reviews_count = None, category = Some ''cafe'',
       latitude = Some 1.5, longitude = Some 2.5 \<rparr>"
  by (simp add: normalized_def cafe_x_def trim_def is_white_space_def)


lemma normalized_not_object:
  "\<forall>kvs. field_of raw ''location'' \<noteq> JObj kvs \<Longrightarrow>
     latitude (normalized raw) = None \<and> longitude (normalized raw) = None"
  by (cases "field_of raw ''location''") (simp_all add: normalized_def)

text \<open>
  Claim C4. For every array of provider records the normaliser returns, without throwing,
  one lead per record whose fields are read as the mapping \<open>normalized\<close> says: title to
  business_name, address, phone, website and email to themselves, totalScore to rating,
  reviewsCount to reviews_count, the first element of categories to category and
  location.lat/lng to latitude/longitude. A value that is not a finite number gives null
  in a numeric field, a value that is not a non-empty string gives null in a string field
  (so does a string of white space only), a finite number and a string with a visible
  character are copied. A null or missing record, and a location that is not an object,
  are read as the empty object. The record Cafe X of the specification normalises to the
  lead the specification lists.
\<close>

theorem normalizeApifyLeads_field_mapping:
  "normalizeApifyLeads items = Inr (map normalized items)
   \<and> (\<forall>v. (\<forall>r. v \<noteq> JNum (Finite r)) \<longrightarrow> parseNumber v = None)
   \<and> (\<forall>r. parseNumber (JNum (Finite r)) = Some r)
   \<and> (\<forall>v. (\<forall>s. v = JStr s \<longrightarrow> s = []) \<longrightarrow> asStringOrNull v = None)
   \<and> (\<forall>s. asStringOrNull (JStr s) = (if trim s = [] then None else Some s))
   \<and> normalized JNull = normalized (JObj [])
   \<and> normalized JUndefined = normalized (JObj [])
   \<and> (\<forall>raw. (\<forall>kvs. field_of raw ''location'' \<noteq> JObj kvs) \<longrightarrow>
         latitude (normalized raw) = None \<and> longitude (normalized raw) = None)
   \<and> normalizeApifyLeads [cafe_x] =
       Inr [\<lparr> business_name = Some ''Cafe X'', address = None, phone = None, website = None,
              email = None, rating = Some 4.2, reviews_count = None, category = Some ''cafe'',
              latitude = Some 1.5, longitude = Some 2.5 \<rparr>]"
proof -
  have mapping: "normalizeApifyLeads items = Inr (map normalized items)"
    by (rule normalizeApifyLeads_total)
  have numbers: "\<forall>v. (\<forall>r. v \<noteq> JNum (Finite r)) \<longrightarrow> parseNumber v = None"
    using parseNumber_None by blast
  have strings: "\<forall>v. (\<forall>s. v = JStr s \<longrightarrow> s = []) \<longrightarrow> asStringOrNull v = None"
    using asStringOrNull_None by blast
  have kept: "\<forall>s. asStringOrNull (JStr s) = (if trim s = [] then None else Some s)"
    by simp
  have null_record: "normalized JNull = normalized (JObj [])"
    and missing_record: "normalized JUndefined = normalized (JObj [])"
    by (simp_all add: normalized_def)
  have location: "\<forall>raw. (\<forall>kvs. field_of raw ''location'' \<noteq> JObj kvs) \<longrightarrow>
      latitude (normalized raw) = None \<and> longitude (normalized raw) = None"
    using normalized_not_object by blast
  have example: "normalizeApifyLeads [cafe_x] =
       Inr [\<lparr> business_name = Some ''Cafe X'', address = None, phone = None, website = None,
              email = None, rating = Some 4.2, reviews_count = None, category = Some ''cafe'',
              latitude = Some 1.5, longitude = Some 2.5 \<rparr>]"
    by (simp add: normalizeApifyLeads_total normalized_cafe_x)
  from mapping numbers strings kept null_record missing_record location example
  show ?thesis by simp
qed

theorem normalizeApifyLeads_field_mapping_witness:
  "normalizeApifyLeads
     [JNull,
      JObj [(''title'', JStr ''  ''), (''location'', JStr ''nowhere''),
            (''totalScore'', JNum NaN), (''reviewsCount'', JStr ''12''),
            (''phone'', JStr ''555''), (''categories'', JObj [])]] =
   Inr [\<lparr> business_name = None, address = None, phone = None, website = None,
          email = None, rating = None, reviews_count = None, category = None,
          latitude = None, longitude = None \<rparr>,
        \<lparr> business_name = None, address = None, phone = Some ''555'', website = None,
          email = None, rating = None, reviews_count = None, category = None,
          latitude = None, longitude = None \<rparr>]
   \<and> parseNumber (JNum PosInfinity) = None
   \<and> asStringOrNull (JStr []) = None"
  using normalizeApifyLeads_field_mapping
    [of "[JNull,
      JObj [(''title'', JStr ''  ''), (''location'', JStr ''nowhere''),
            (''totalScore'', JNum NaN), (''reviewsCount'', JStr ''12''),
            (''phone'', JStr ''555''), (''categories'', JObj [])]]"]
  by (simp add: normalized_def trim_def is_white_space_def)


section \<open>Stored documents\<close>

text \<open>
  Firestore documents are schemaless and a merge write can create a document that holds
  only the written fields, so every field of a stored document is optional: \<open>None\<close> is a
  field that is absent or \<^verbatim>\<open>null\<close>. Counters are integers (exact in JavaScript's numbers
  below \<open>2^53\<close>).

  The code prints keyword, city and country of a Search into template strings, where an
  absent field reads \<^verbatim>\<open>undefined\<close> and a stored \<^verbatim>\<open>null\<close> reads \<^verbatim>\<open>null\<close>; these three fields
  keep the two apart.
\<close>

datatype TextField = Absent | Null | Text string

datatype SearchStatus = Queued | Running | Completed | Failed

datatype PlanType = Starter | Growth | Pro

record SearchData =
  user_id :: "string option"
  keyword :: TextField
  city :: TextField
  country :: TextField
  max_results :: "int option"
  status :: "SearchStatus option"
  total_results :: "int option"
  error_message :: "string option"
  apify_run_id :: "string option"
  updated_at :: "string option"

section \<open>The synthetic lead generator\<close>

text \<open>\<^verbatim>\<open>String(n)\<close> for an integer, \<^verbatim>\<open>padStart\<close>, \<^verbatim>\<open>toFixed(1)\<close> and template holes.\<close>

definition digit_char :: "nat \<Rightarrow> char" where
  "digit_char d = char_of (48 + d)"

function string_of_nat :: "nat \<Rightarrow> string" where
  "string_of_nat n =
     (if n < 10 then [digit_char n] else string_of_nat (n div 10) @ [digit_char (n mod 10)])"
  by pat_completeness auto
termination
  by (relation "measure id") auto

declare string_of_nat.simps [simp del]

definition string_of_int :: "int \<Rightarrow> string" where
  "string_of_int i = (if i < 0 then CHR ''-'' # string_of_nat (nat (- i)) else string_of_nat (nat i))"

definition padStart :: "string \<Rightarrow> nat \<Rightarrow> char \<Rightarrow> string" where
  "padStart s targetLength c = replicate (targetLength - length s) c @ s"

text \<open>
  \<^verbatim>\<open>Number(x.toFixed(1))\<close>: the multiple of one tenth nearest to \<open>x\<close>, the larger one on
  a tie.
\<close>

definition toFixed1 :: "real \<Rightarrow> real" where
  "toFixed1 x = of_int \<lfloor>x * 10 + 1 / 2\<rfloor> / 10"

text \<open>
  A template hole \<^verbatim>\<open>${x}\<close> prints an absent field as \<^verbatim>\<open>undefined\<close>, a stored \<^verbatim>\<open>null\<close> as
  \<^verbatim>\<open>null\<close> and a string as it is.
\<close>

fun template :: "TextField \<Rightarrow> string" where
  "template Absent = ''undefined''"
| "template Null = ''null''"
| "template (Text s) = s"

text \<open>
  \<^verbatim>\<open>category: search.keyword\<close> copies the field into the payload, whose type has strings
  and \<^verbatim>\<open>null\<close> only: a string is copied, \<^verbatim>\<open>null\<close> stays \<^verbatim>\<open>null\<close>, and the \<^verbatim>\<open>undefined\<close>
  of an absent keyword, which the payload type does not have, is read as no category.
\<close>

fun payload_text :: "TextField \<Rightarrow> string option" where
  "payload_text (Text s) = Some s"
| "payload_text Null = None"
| "payload_text Absent = None"

text \<open>
  A string that is read after its truthiness test (\<^verbatim>\<open>lead.website!\<close> of a candidate,
  \<^verbatim>\<open>apifyRun.data.id\<close> and \<^verbatim>\<open>apifyRun.data.defaultDatasetId\<close> behind their tests).
\<close>

fun tested :: "string option \<Rightarrow> string" where
  "tested (Some s) = s"
| "tested None = []"

text \<open>\<^verbatim>\<open>n || d\<close> on a number field: zero and an absent field give the default.\<close>

fun or_default :: "int option \<Rightarrow> int \<Rightarrow> int" where
  "or_default None d = d"
| "or_default (Some n) d = (if n = 0 then d else n)"

text \<open>
  \<open>random k\<close> is the value of the \<open>k\<close>-th call of \<^verbatim>\<open>Math.random()\<close> made while the
  batch is built; each lead makes three calls, for phone, rating and reviews_count in
  this order.
\<close>

definition mockLead :: "(nat \<Rightarrow> real) \<Rightarrow> SearchData \<Rightarrow> nat \<Rightarrow> LeadPayload" where
  "mockLead random search index =
     \<lparr> business_name = Some (template (keyword search) @ '' '' @ string_of_nat (index + 1)
                              @ '' - '' @ template (city search)),
       address = Some (''Main Street '' @ string_of_nat (index + 1) @ '', ''
                              @ template (city search) @ '', '' @ template (country search)),
       phone = Some (''+1 555 ''
                 @ padStart (string_of_int \<lfloor>random (3 * index) * 10000\<rfloor>) 4 CHR ''0''),
       website = Some (''https://example'' @ string_of_nat (index + 1) @ ''.com''),
       email = None,
       rating = Some (toFixed1 (3.2 + random (3 * index + 1) * 1.6)),
       reviews_count = Some (of_int \<lfloor>random (3 * index + 2) * 500\<rfloor>),
       category = payload_text (keyword search),
       latitude = None,
       longitude = None \<rparr>"

text \<open>\<^verbatim>\<open>Array.from({ length: maxItems }, f)\<close> has no element when \<open>maxItems\<close> is negative.\<close>

definition buildMockLeads :: "(nat \<Rightarrow> real) \<Rightarrow> SearchData \<Rightarrow> LeadPayload list" where
  "buildMockLeads random search =
     (let maxItems = min (or_default (max_results search) 100) 10
      in map (mockLead random search) [0..<nat maxItems])"

definition unit_interval :: "(nat \<Rightarrow> real) \<Rightarrow> bool" where
  "unit_interval random = (\<forall>k. 0 \<le> random k \<and> random k < 1)"

definition random_zero :: "nat \<Rightarrow> real" where
  "random_zero k = 0"

definition search_zero_max :: SearchData where
  "search_zero_max =
     \<lparr> user_id = Some ''u1'', keyword = Text ''cafe'', city = Text ''Lima'',
       country = Text ''Peru'', max_results = Some 0, status = Some Queued,
       total_results = Some 0, error_message = None, apify_run_id = None,
       updated_at = None \<rparr>"

subsection \<open>Facts about the generator\<close>

lemma length_buildMockLeads:
  "length (buildMockLeads random search) =
     (case max_results search of
        None \<Rightarrow> 10
      | Some n \<Rightarrow> if n = 0 then 10 else nat (min n 10))"
  by (cases "max_results search") (simp_all add: buildMockLeads_def Let_def)

lemma nth_buildMockLeads:
  "i < length (buildMockLeads random search) \<Longrightarrow>
     buildMockLeads random search ! i = mockLead random search i"
  by (simp add: buildMockLeads_def Let_def)

lemma toFixed1_range:
  assumes "0 \<le> r" "r < 1"
  shows "3.2 \<le> toFixed1 (3.2 + r * 1.6) \<and> toFixed1 (3.2 + r * 1.6) \<le> 4.8"
proof -
  let ?n = "\<lfloor>(3.2 + r * 1.6) * 10 + 1 / 2\<rfloor>"
  have "32 \<le> ?n" using assms by (simp add: le_floor_iff)
  moreover have "?n \<le> 48"
  proof -
    have "(3.2 + r * 1.6) * 10 + 1 / 2 < 49" using assms by simp
    then have "?n < 49" by (simp add: floor_less_iff)
    then show ?thesis by simp
  qed
  ultimately have "32 \<le> (of_int ?n :: real)" "(of_int ?n :: real) \<le> 48"
    by (simp_all only: of_int_le_iff [symmetric, where ?'a = real] of_int_numeral)
  then show ?thesis by (simp add: toFixed1_def)
qed

lemma reviews_range:
  assumes "0 \<le> r" "r < 1"
  shows "0 \<le> (of_int \<lfloor>r * 500\<rfloor> :: real) \<and> (of_int \<lfloor>r * 500\<rfloor> :: real) < 500"
proof -
  have "0 \<le> \<lfloor>r * 500\<rfloor>" using assms by simp
  moreover have "\<lfloor>r * 500\<rfloor> < 500" using assms by (simp add: floor_less_iff)
  ultimately show ?thesis by simp
qed


lemma mockLead_ranges:
  assumes "unit_interval random"
  shows "\<exists>r c. rating (mockLead random search i) = Some r \<and> 3.2 \<le> r \<and> r \<le> 4.8
           \<and> reviews_count (mockLead random search i) = Some c \<and> 0 \<le> c \<and> c < 500"
proof -
  have a: "0 \<le> random (3 * i + 1)" "random (3 * i + 1) < 1"
    and b: "0 \<le> random (3 * i + 2)" "random (3 * i + 2) < 1"
    using assms by (simp_all add: unit_interval_def)
  show ?thesis
    using toFixed1_range [OF a] reviews_range [OF b] by (simp add: mockLead_def)
qed

text \<open>
  Claim C5 as the code has it. The batch has \<open>min(requested_max, 10)\<close> leads when the
  requested maximum is at least 1, none when it is negative, and 10 when it is 0 or absent
  (the default of \<^verbatim>\<open>search.max_results || 100\<close>). In every lead business_name is the
  keyword, the index counted from 1 and the city, as \<^verbatim>\<open>keyword index - city\<close>, where a
  keyword or city that the Search does not have prints as \<^verbatim>\<open>undefined\<close> and a stored
  \<^verbatim>\<open>null\<close> as \<^verbatim>\<open>null\<close>; email, latitude and longitude are null; and when \<^verbatim>\<open>Math.random()\<close> returns values in
  \<open>[0, 1)\<close> the rating lies in \<open>[3.2, 4.8]\<close> and reviews_count in \<open>[0, 500)\<close>.
\<close>

theorem buildMockLeads_batch:
  "length (buildMockLeads random search) =
     (case max_results search of
        None \<Rightarrow> 10
      | Some n \<Rightarrow> if n = 0 then 10 else nat (min n 10))
   \<and> (\<forall>i < length (buildMockLeads random search).
        business_name (buildMockLeads random search ! i) =
          Some ((case keyword search of
                   Absent \<Rightarrow> ''undefined'' | Null \<Rightarrow> ''null'' | Text k \<Rightarrow> k)
                @ '' '' @ string_of_nat (i + 1) @ '' - ''
                @ (case city search of
                     Absent \<Rightarrow> ''undefined'' | Null \<Rightarrow> ''null'' | Text c \<Rightarrow> c))
        \<and> email (buildMockLeads random search ! i) = None
        \<and> latitude (buildMockLeads random search ! i) = None
        \<and> longitude (buildMockLeads random search ! i) = None
        \<and> (unit_interval random \<longrightarrow>
             (\<exists>r c. rating (buildMockLeads random search ! i) = Some r \<and> 3.2 \<le> r \<and> r \<le> 4.8
                \<and> reviews_count (buildMockLeads random search ! i) = Some c
                \<and> 0 \<le> c \<and> c < 500)))"
proof (intro conjI allI impI)
  show "length (buildMockLeads random search) =
     (case max_results search of
        None \<Rightarrow> 10
      | Some n \<Rightarrow> if n = 0 then 10 else nat (min n 10))"
    by (rule length_buildMockLeads)
next
  fix i assume i: "i < length (buildMockLeads random search)"
  note nth = nth_buildMockLeads [OF i]
  show "business_name (buildMockLeads random search ! i) =
          Some ((case keyword search of
                   Absent \<Rightarrow> ''undefined'' | Null \<Rightarrow> ''null'' | Text k \<Rightarrow> k)
                @ '' '' @ string_of_nat (i + 1) @ '' - ''
                @ (case city search of
                     Absent \<Rightarrow> ''undefined'' | Null \<Rightarrow> ''null'' | Text c \<Rightarrow> c))"
    by (simp add: nth mockLead_def split: TextField.split)
  show "email (buildMockLeads random search ! i) = None"
    by (simp add: nth mockLead_def)
  show "latitude (buildMockLeads random search ! i) = None"
    by (simp add: nth mockLead_def)
  show "longitude (buildMockLeads random search ! i) = None"
    by (simp add: nth mockLead_def)
  assume "unit_interval random"
  then show "\<exists>r c. rating (buildMockLeads random search ! i) = Some r \<and> 3.2 \<le> r \<and> r \<le> 4.8
                \<and> reviews_count (buildMockLeads random search ! i) = Some c
                \<and> 0 \<le> c \<and> c < 500"
    unfolding nth by (rule mockLead_ranges)
qed

theorem buildMockLeads_batch_witness:
  "length (buildMockLeads (\<lambda>k. 1 / 2) (search_zero_max\<lparr>max_results := Some 2\<rparr>)) = 2
   \<and> business_name (buildMockLeads (\<lambda>k. 1 / 2) (search_zero_max\<lparr>max_results := Some 2\<rparr>) ! 1)
       = Some ''cafe 2 - Lima''
   \<and> business_name (buildMockLeads (\<lambda>k. 1 / 2)
         (search_zero_max\<lparr>max_results := Some 2, keyword := Null, city := Absent\<rparr>) ! 0)
       = Some ''null 1 - undefined''
   \<and> email (buildMockLeads (\<lambda>k. 1 / 2) (search_zero_max\<lparr>max_results := Some 2\<rparr>) ! 1) = None
   \<and> unit_interval (\<lambda>k. 1 / 2)
   \<and> (\<exists>r c. rating (buildMockLeads (\<lambda>k. 1 / 2) (search_zero_max\<lparr>max_results := Some 2\<rparr>) ! 1)
              = Some r \<and> 3.2 \<le> r \<and> r \<le> 4.8
         \<and> reviews_count (buildMockLeads (\<lambda>k. 1 / 2) (search_zero_max\<lparr>max_results := Some 2\<rparr>) ! 1)
              = Some c \<and> 0 \<le> c \<and> c < 500)"
proof -
  let ?s = "search_zero_max\<lparr>max_results := Some 2\<rparr>"
  let ?R = "\<lambda>k::nat. 1 / 2 :: real"
  note batch = buildMockLeads_batch [of ?R ?s]
  have unit: "unit_interval ?R" by (simp add: unit_interval_def)
  have len: "length (buildMockLeads ?R ?s) = 2"
    using batch by (simp add: search_zero_max_def)
  then have one: "1 < length (buildMockLeads ?R ?s)" by simp
  have two: "string_of_nat (1 + 1) = ''2''"
    by code_simp
  let ?n = "search_zero_max\<lparr>max_results := Some 2, keyword := Null, city := Absent\<rparr>"
  note nulls = buildMockLeads_batch [of ?R ?n]
  have "length (buildMockLeads ?R ?n) = 2"
    using nulls by (simp add: search_zero_max_def)
  then have zero: "0 < length (buildMockLeads ?R ?n)" by simp
  have first: "string_of_nat (0 + 1) = ''1''"
    by code_simp
  from nulls zero first
  have printed: "business_name (buildMockLeads ?R ?n ! 0) = Some ''null 1 - undefined''"
    by (simp add: search_zero_max_def)
  from batch one unit two len have "length (buildMockLeads ?R ?s) = 2
   \<and> business_name (buildMockLeads ?R ?s ! 1) = Some ''cafe 2 - Lima''
   \<and> email (buildMockLeads ?R ?s ! 1) = None
   \<and> unit_interval ?R
   \<and> (\<exists>r c. rating (buildMockLeads ?R ?s ! 1) = Some r \<and> 3.2 \<le> r \<and> r \<le> 4.8
         \<and> reviews_count (buildMockLeads ?R ?s ! 1) = Some c \<and> 0 \<le> c \<and> c < 500)"
    by (simp add: search_zero_max_def)
  with printed show ?thesis by simp
qed

theorem buildMockLeads_zero_max_counterexample:
  "max_results search_zero_max = Some 0
   \<and> min (0::int) 10 = 0
   \<and> length (buildMockLeads random_zero search_zero_max) = 10"
  by (simp add: search_zero_max_def buildMockLeads_def)


section \<open>The document store and the identity service\<close>

record ProfileData =
  profile_email :: "string option"
  full_name :: "string option"
  plan :: "PlanType option"
  leads_used :: "int option"
  leads_limit :: "int option"
  is_suspended :: "bool option"
  suspended_at :: "string option"
  profile_updated_at :: "string option"

text \<open>A stored lead: the payload (\<^verbatim>\<open>...lead\<close>) with its owners and creation time.\<close>

record LeadDoc =
  lead :: LeadPayload
  search_id :: string
  lead_user_id :: string
  created_at :: string

record Subscription =
  sub_user_id :: string
  sub_plan :: PlanType
  sub_status :: string
  sub_updated_at :: string
  sub_created_at :: string

text \<open>
  The object literal of a merge write is a list of field assignments; merging applies
  them to the stored document, or to the empty document when none is stored.
\<close>

datatype SearchField =
    Status SearchStatus
  | TotalResults int
  | ErrorMessage "string option"
  | ApifyRunId string
  | UpdatedAt string

datatype ProfileField =
    PlanField PlanType
  | LeadsUsed int
  | LeadsLimit int
  | IsSuspended bool
  | SuspendedAt "string option"
  | ProfileUpdatedAt string

fun set_search_field :: "SearchField \<Rightarrow> SearchData \<Rightarrow> SearchData" where
  "set_search_field (Status s) d = d\<lparr>status := Some s\<rparr>"
| "set_search_field (TotalResults n) d = d\<lparr>total_results := Some n\<rparr>"
| "set_search_field (ErrorMessage m) d = d\<lparr>error_message := m\<rparr>"
| "set_search_field (ApifyRunId r) d = d\<lparr>apify_run_id := Some r\<rparr>"
| "set_search_field (UpdatedAt t) d = d\<lparr>updated_at := Some t\<rparr>"

fun set_profile_field :: "ProfileField \<Rightarrow> ProfileData \<Rightarrow> ProfileData" where
  "set_profile_field (PlanField p) d = d\<lparr>plan := Some p\<rparr>"
| "set_profile_field (LeadsUsed n) d = d\<lparr>leads_used := Some n\<rparr>"
| "set_profile_field (LeadsLimit n) d = d\<lparr>leads_limit := Some n\<rparr>"
| "set_profile_field (IsSuspended b) d = d\<lparr>is_suspended := Some b\<rparr>"
| "set_profile_field (SuspendedAt t) d = d\<lparr>suspended_at := t\<rparr>"
| "set_profile_field (ProfileUpdatedAt t) d = d\<lparr>profile_updated_at := Some t\<rparr>"

definition empty_search :: SearchData where
  "empty_search =
     \<lparr> user_id = None, keyword = Absent, city = Absent, country = Absent, max_results = None,
       status = None, total_results = None, error_message = None, apify_run_id = None,
       updated_at = None \<rparr>"

definition empty_profile :: ProfileData where
  "empty_profile =
     \<lparr> profile_email = None, full_name = None, plan = None, leads_used = None,
       leads_limit = None, is_suspended = None, suspended_at = None,
       profile_updated_at = None \<rparr>"

definition merge_search :: "SearchField list \<Rightarrow> SearchData option \<Rightarrow> SearchData" where
  "merge_search patch stored =
     fold set_search_field patch (case stored of None \<Rightarrow> empty_search | Some d \<Rightarrow> d)"

definition merge_profile :: "ProfileField list \<Rightarrow> ProfileData option \<Rightarrow> ProfileData" where
  "merge_profile patch stored =
     fold set_profile_field patch (case stored of None \<Rightarrow> empty_profile | Some d \<Rightarrow> d)"

text \<open>
  The state one request works on. Profiles and subscriptions are keyed by account id.
  Searches are listed with their ids, leads with their document ids (natural numbers stand
  for the generated ids); a query returns documents in the order of the list.
  \<open>identities\<close> maps an account of the identity service to its \<^verbatim>\<open>disabled\<close> flag.
  \<open>faults\<close> says which of the coming calls to the store or the identity service fail:
  each call takes the head of the list, and \<open>Some msg\<close> makes it throw an error with that
  message. \<open>journal\<close> lists the effects that took place, oldest first.
\<close>

datatype DocRef = LeadRef nat | SearchRef string

datatype BatchOp =
    NewLead LeadDoc
  | MergeSearch string "SearchField list"
  | MergeProfile string "ProfileField list"
  | Delete DocRef

datatype Effect =
    SearchSet string "SearchField list"
  | ProfileSet string "ProfileField list"
  | SubscriptionSet string Subscription
  | LeadSetEmail nat string
  | BatchCommit "BatchOp list"
  | SubscriptionDelete string
  | ProfileDelete string
  | AuthUpdateUser string bool
  | AuthDeleteUser string
  | SiteFetch string

record World =
  profiles :: "string \<rightharpoonup> ProfileData"
  searches :: "(string \<times> SearchData) list"
  leads :: "(nat \<times> LeadDoc) list"
  subscriptions :: "string \<rightharpoonup> Subscription"
  identities :: "string \<rightharpoonup> bool"
  faults :: "string option list"
  journal :: "Effect list"

text \<open>Writing a search under its id replaces the stored one in place or adds it.\<close>

fun put_search :: "string \<Rightarrow> SearchData \<Rightarrow> (string \<times> SearchData) list \<Rightarrow> (string \<times> SearchData) list" where
  "put_search k d [] = [(k, d)]"
| "put_search k d ((k', d') # rest) =
     (if k' = k then (k, d) # rest else (k', d') # put_search k d rest)"

text \<open>A generated document id is one no stored lead has.\<close>

definition fresh_id :: "(nat \<times> LeadDoc) list \<Rightarrow> nat" where
  "fresh_id ls = Suc (fold max (map fst ls) 0)"

definition set_lead_email :: "string \<Rightarrow> LeadDoc \<Rightarrow> LeadDoc" where
  "set_lead_email e d = d\<lparr>lead := (lead d)\<lparr>email := Some e\<rparr>\<rparr>"

fun apply_batch_op :: "BatchOp \<Rightarrow> World \<Rightarrow> World" where
  "apply_batch_op (NewLead d) w = w\<lparr>leads := leads w @ [(fresh_id (leads w), d)]\<rparr>"
| "apply_batch_op (MergeSearch k patch) w =
     w\<lparr>searches := put_search k (merge_search patch (map_of (searches w) k)) (searches w)\<rparr>"
| "apply_batch_op (MergeProfile k patch) w =
     w\<lparr>profiles := (profiles w)(k \<mapsto> merge_profile patch (profiles w k))\<rparr>"
| "apply_batch_op (Delete (LeadRef i)) w = w\<lparr>leads := filter (\<lambda>(j, d). j \<noteq> i) (leads w)\<rparr>"
| "apply_batch_op (Delete (SearchRef k)) w =
     w\<lparr>searches := filter (\<lambda>(k', d). k' \<noteq> k) (searches w)\<rparr>"

fun apply_effect :: "Effect \<Rightarrow> World \<Rightarrow> World" where
  "apply_effect (SearchSet k patch) w = apply_batch_op (MergeSearch k patch) w"
| "apply_effect (ProfileSet k patch) w = apply_batch_op (MergeProfile k patch) w"
| "apply_effect (SubscriptionSet k s) w = w\<lparr>subscriptions := (subscriptions w)(k \<mapsto> s)\<rparr>"
| "apply_effect (LeadSetEmail i e) w =
     w\<lparr>leads := map (\<lambda>(j, d). if j = i then (j, set_lead_email e d) else (j, d)) (leads w)\<rparr>"
| "apply_effect (BatchCommit ops) w = fold apply_batch_op ops w"
| "apply_effect (SubscriptionDelete k) w = w\<lparr>subscriptions := (subscriptions w)(k := None)\<rparr>"
| "apply_effect (ProfileDelete k) w = w\<lparr>profiles := (profiles w)(k := None)\<rparr>"
| "apply_effect (AuthUpdateUser k disabled) w = w\<lparr>identities := (identities w)(k \<mapsto> disabled)\<rparr>"
| "apply_effect (AuthDeleteUser k) w = w\<lparr>identities := (identities w)(k := None)\<rparr>"
| "apply_effect (SiteFetch url) w = w"

subsection \<open>Computations that may throw\<close>

text \<open>
  An asynchronous function of the service is a function from the state to an outcome and
  the state it leaves: \<open>Inr v\<close> is the value it resolves to, \<open>Inl msg\<close> a thrown
  \<^verbatim>\<open>Error\<close> with its message. What was written before a throw stays written.
\<close>

type_synonym 'a io = "World \<Rightarrow> (string + 'a) \<times> World"

definition io_return :: "'a \<Rightarrow> 'a io" where
  "io_return v w = (Inr v, w)"

definition io_throw :: "string \<Rightarrow> 'a io" where
  "io_throw msg w = (Inl msg, w)"

definition io_bind :: "'a io \<Rightarrow> ('a \<Rightarrow> 'b io) \<Rightarrow> 'b io" where
  "io_bind m f w = (case m w of (Inl msg, w') \<Rightarrow> (Inl msg, w') | (Inr v, w') \<Rightarrow> f v w')"

text \<open>\<^verbatim>\<open>try { ... } catch (error) { ... }\<close> with the error's message.\<close>

definition io_catch :: "'a io \<Rightarrow> (string \<Rightarrow> 'a io) \<Rightarrow> 'a io" where
  "io_catch m handler w =
     (case m w of (Inl msg, w') \<Rightarrow> handler msg w' | (Inr v, w') \<Rightarrow> (Inr v, w'))"

text \<open>\<^verbatim>\<open>try { ... } catch { }\<close> and \<^verbatim>\<open>.catch(() => undefined)\<close>\<close>

definition io_ignore_errors :: "unit io \<Rightarrow> unit io" where
  "io_ignore_errors m w = (case m w of (Inl msg, w') \<Rightarrow> (Inr (), w') | (Inr v, w') \<Rightarrow> (Inr (), w'))"

definition pop_fault :: "World \<Rightarrow> World" where
  "pop_fault w = w\<lparr>faults := tl (faults w)\<rparr>"

definition next_fault :: "World \<Rightarrow> string option \<times> World" where
  "next_fault w = (case faults w of [] \<Rightarrow> (None, w) | f # fs \<Rightarrow> (f, pop_fault w))"

text \<open>A read of the store, and a write (or another call with an effect).\<close>

definition db_read :: "(World \<Rightarrow> 'a) \<Rightarrow> 'a io" where
  "db_read f w =
     (case next_fault w of
        (Some msg, w') \<Rightarrow> (Inl msg, w')
      | (None, w') \<Rightarrow> (Inr (f w'), w'))"

definition perform :: "Effect \<Rightarrow> unit io" where
  "perform e w =
     (case next_fault w of
        (Some msg, w') \<Rightarrow> (Inl msg, w')
      | (None, w') \<Rightarrow> (Inr (), (apply_effect e w')\<lparr>journal := journal w' @ [e]\<rparr>))"


section \<open>The environment of a request\<close>

text \<open>
  What a request gets from outside the store: the provider token of the process, the clock
  (\<^verbatim>\<open>nowIso()\<close>, taken as constant during one request), the values of \<^verbatim>\<open>Math.random()\<close>,
  and the answers of the HTTP calls. \<open>actor_run query max\<close> is the provider's answer to the
  run request, \<open>dataset_items id\<close> the answer to the dataset request, and \<open>site_html url\<close>
  the body a lead's website returns (\<open>None\<close> when the fetch fails or times out).
\<close>

datatype RunOutcome =
    RunFails string
  | RunNotOk int string
  | RunStarted "string option" "string option"

datatype DatasetOutcome =
    DatasetFails string
  | DatasetJson jsval

record Env =
  APIFY_TOKEN :: "string option"
  now :: string
  math_random :: "nat \<Rightarrow> real"
  actor_run :: "string \<Rightarrow> int option \<Rightarrow> RunOutcome"
  dataset_items :: "string \<Rightarrow> DatasetOutcome"
  site_html :: "string \<Rightarrow> string option"

section \<open>The batched persistence writer\<close>

text \<open>\<^verbatim>\<open>items.slice(i, i + chunkSize)\<close>\<close>

definition slice :: "'a list \<Rightarrow> nat \<Rightarrow> nat \<Rightarrow> 'a list" where
  "slice items a b = take (b - a) (drop a items)"

text \<open>
  The loop of \<^verbatim>\<open>chunkArray\<close> from index \<open>i\<close> on. With \<open>chunkSize = 0\<close> the loop of the
  source never ends; the writer, its only caller, passes 400, and the model stops there.
\<close>

function chunk_from :: "'a list \<Rightarrow> nat \<Rightarrow> nat \<Rightarrow> 'a list list" where
  "chunk_from items chunkSize i =
     (if i < length items \<and> 0 < chunkSize
      then slice items i (i + chunkSize) # chunk_from items chunkSize (i + chunkSize)
      else [])"
  by pat_completeness auto
termination
  by (relation "measure (\<lambda>(items, chunkSize, i). length items - i)") auto

declare chunk_from.simps [simp del]

definition chunkArray :: "'a list \<Rightarrow> nat \<Rightarrow> 'a list list" where
  "chunkArray items chunkSize = chunk_from items chunkSize 0"

definition lead_doc :: "Env \<Rightarrow> string \<Rightarrow> string \<Rightarrow> LeadPayload \<Rightarrow> LeadDoc" where
  "lead_doc env userId searchId l =
     \<lparr> lead = l, search_id = searchId, lead_user_id = userId, created_at = now env \<rparr>"

definition lead_writes :: "Env \<Rightarrow> string \<Rightarrow> string \<Rightarrow> LeadPayload list \<Rightarrow> BatchOp list" where
  "lead_writes env userId searchId chunk = map (\<lambda>l. NewLead (lead_doc env userId searchId l)) chunk"

definition completed_patch :: "Env \<Rightarrow> nat \<Rightarrow> SearchField list" where
  "completed_patch env n =
     [Status Completed, TotalResults (int n), ErrorMessage None, UpdatedAt (now env)]"

definition usage_patch :: "Env \<Rightarrow> int \<Rightarrow> ProfileField list" where
  "usage_patch env n = [LeadsUsed n, ProfileUpdatedAt (now env)]"

text \<open>The loop over the chunks: one batch per chunk, the last one also finalises.\<close>

fun commit_chunks ::
  "Env \<Rightarrow> string \<Rightarrow> string \<Rightarrow> LeadPayload list \<Rightarrow> int \<Rightarrow> LeadPayload list list \<Rightarrow> unit io" where
  "commit_chunks env userId searchId all_leads currentLeadsUsed [] = io_return ()"
| "commit_chunks env userId searchId all_leads currentLeadsUsed (chunk # rest) =
     io_bind
       (perform (BatchCommit
          (lead_writes env userId searchId chunk @
           (if rest = []
            then [MergeSearch searchId (completed_patch env (length all_leads)),
                  MergeProfile userId
                    (usage_patch env (currentLeadsUsed + int (length all_leads)))]
            else []))))
       (\<lambda>_. commit_chunks env userId searchId all_leads currentLeadsUsed rest)"

definition writeLeadsAndFinalize ::
  "Env \<Rightarrow> string \<Rightarrow> string \<Rightarrow> LeadPayload list \<Rightarrow> int \<Rightarrow> unit io" where
  "writeLeadsAndFinalize env userId searchId all_leads currentLeadsUsed =
     (if length all_leads = 0
      then perform (SearchSet searchId (completed_patch env 0))
      else commit_chunks env userId searchId all_leads currentLeadsUsed
             (chunkArray all_leads 400))"

subsection \<open>Facts about the store operations\<close>

lemma perform_ok:
  "faults w = [] \<Longrightarrow>
     perform e w = (Inr (), (apply_effect e w)\<lparr>journal := journal w @ [e]\<rparr>)"
  by (simp add: perform_def next_fault_def)

lemma db_read_ok: "faults w = [] \<Longrightarrow> db_read f w = (Inr (f w), w)"
  by (simp add: db_read_def next_fault_def)

lemma map_of_put_search [simp]: "map_of (put_search k d l) = (map_of l)(k \<mapsto> d)"
  by (induction l) (auto simp: fun_eq_iff)

lemma pop_fault_no_faults [simp]: "faults w = [] \<Longrightarrow> pop_fault w = w"
  by (simp add: pop_fault_def)

lemma perform_cases:
  assumes "perform e w = (r, w')"
  shows "(r = Inr () \<and> w' = (apply_effect e (pop_fault w))\<lparr>journal := journal w @ [e]\<rparr>)
     \<or> (\<exists>msg. r = Inl msg \<and> w' = pop_fault w)"
proof (cases "faults w")
  case Nil
  with assms show ?thesis by (auto simp: perform_def next_fault_def)
next
  case (Cons x xs)
  with assms show ?thesis
    by (cases x) (auto simp: perform_def next_fault_def pop_fault_def)
qed

lemma db_read_cases:
  assumes "db_read f w = (r, w')"
  shows "w' = pop_fault w \<and> (r = Inr (f (pop_fault w)) \<or> (\<exists>msg. r = Inl msg))"
proof (cases "faults w")
  case Nil
  with assms show ?thesis by (auto simp: db_read_def next_fault_def)
next
  case (Cons x xs)
  with assms show ?thesis
    by (cases x) (auto simp: db_read_def next_fault_def pop_fault_def)
qed

lemma chunk_from_unfold:
  "0 < n \<Longrightarrow> chunk_from items n i =
     (if i < length items then take n (drop i items) # chunk_from items n (i + n) else [])"
  by (subst chunk_from.simps) (simp add: slice_def)

lemma concat_chunk_from:
  "0 < n \<Longrightarrow> concat (chunk_from items n i) = drop i items"
proof (induction items n i rule: chunk_from.induct)
  case (1 items n i)
  show ?case
  proof (cases "i < length items")
    case True
    have "take n (drop i items) @ drop (i + n) items = drop i items"
      by (metis append_take_drop_id drop_drop add.commute)
    with 1 True show ?thesis
      by (subst chunk_from_unfold) (simp_all del: drop_drop)
  next
    case False
    with 1 show ?thesis by (subst chunk_from_unfold) simp_all
  qed
qed

lemma chunk_from_sizes:
  "0 < n \<Longrightarrow> c \<in> set (chunk_from items n i) \<Longrightarrow> 0 < length c \<and> length c \<le> n"
proof (induction items n i rule: chunk_from.induct)
  case (1 items n i)
  show ?case
  proof (cases "i < length items")
    case True
    with 1 show ?thesis
      by (subst (asm) (2) chunk_from_unfold) auto
  next
    case False
    with 1 show ?thesis by (subst (asm) (2) chunk_from_unfold) auto
  qed
qed

lemma chunkArray_partition:
  "0 < n \<Longrightarrow> concat (chunkArray items n) = items"
  by (simp add: chunkArray_def concat_chunk_from)

lemma chunkArray_sizes:
  "0 < n \<Longrightarrow> c \<in> set (chunkArray items n) \<Longrightarrow> 0 < length c \<and> length c \<le> n"
  unfolding chunkArray_def by (rule chunk_from_sizes)

lemma chunkArray_not_empty:
  "0 < n \<Longrightarrow> items \<noteq> [] \<Longrightarrow> chunkArray items n \<noteq> []"
  using chunkArray_partition [of n items] by auto

lemma fold_lead_writes:
  "searches (fold apply_batch_op (lead_writes env userId searchId chunk) w) = searches w
   \<and> profiles (fold apply_batch_op (lead_writes env userId searchId chunk) w) = profiles w
   \<and> subscriptions (fold apply_batch_op (lead_writes env userId searchId chunk) w) = subscriptions w
   \<and> identities (fold apply_batch_op (lead_writes env userId searchId chunk) w) = identities w
   \<and> faults (fold apply_batch_op (lead_writes env userId searchId chunk) w) = faults w
   \<and> journal (fold apply_batch_op (lead_writes env userId searchId chunk) w) = journal w
   \<and> map snd (leads (fold apply_batch_op (lead_writes env userId searchId chunk) w)) =
        map snd (leads w) @ map (lead_doc env userId searchId) chunk"
  by (induction chunk arbitrary: w) (simp_all add: lead_writes_def)

lemma fold_batch_append:
  "fold apply_batch_op (xs @ ys) w = fold apply_batch_op ys (fold apply_batch_op xs w)"
  by simp

text \<open>The state after a batch of lead writes, and after the finalising batch.\<close>

lemma perform_chunk:
  assumes "perform (BatchCommit (lead_writes env userId searchId chunk)) w = (Inr (), w')"
  shows "searches w' = searches w \<and> profiles w' = profiles w
     \<and> subscriptions w' = subscriptions w \<and> identities w' = identities w
     \<and> faults w' = tl (faults w)
     \<and> journal w' = journal w @ [BatchCommit (lead_writes env userId searchId chunk)]
     \<and> map snd (leads w') = map snd (leads w) @ map (lead_doc env userId searchId) chunk"
proof -
  let ?v = "fold apply_batch_op (lead_writes env userId searchId chunk) (pop_fault w)"
  from perform_cases [OF assms]
  have w': "w' = ?v\<lparr>journal := journal w @ [BatchCommit (lead_writes env userId searchId chunk)]\<rparr>"
    by simp
  have "searches ?v = searches (pop_fault w) \<and> profiles ?v = profiles (pop_fault w)
     \<and> subscriptions ?v = subscriptions (pop_fault w)
     \<and> identities ?v = identities (pop_fault w) \<and> faults ?v = faults (pop_fault w)
     \<and> journal ?v = journal (pop_fault w)
     \<and> map snd (leads ?v) = map snd (leads (pop_fault w)) @ map (lead_doc env userId searchId) chunk"
    by (rule fold_lead_writes)
  then show ?thesis by (simp add: w' pop_fault_def)
qed

lemma perform_final_chunk:
  assumes "perform (BatchCommit (lead_writes env userId searchId chunk
              @ [MergeSearch searchId sp, MergeProfile userId pp])) w = (Inr (), w')"
  shows "searches w' = put_search searchId (merge_search sp (map_of (searches w) searchId)) (searches w)
     \<and> profiles w' = (profiles w)(userId \<mapsto> merge_profile pp (profiles w userId))
     \<and> subscriptions w' = subscriptions w \<and> identities w' = identities w
     \<and> faults w' = tl (faults w)
     \<and> journal w' = journal w @ [BatchCommit (lead_writes env userId searchId chunk
              @ [MergeSearch searchId sp, MergeProfile userId pp])]
     \<and> map snd (leads w') = map snd (leads w) @ map (lead_doc env userId searchId) chunk"
proof -
  let ?v = "fold apply_batch_op (lead_writes env userId searchId chunk) (pop_fault w)"
  let ?e = "BatchCommit (lead_writes env userId searchId chunk
              @ [MergeSearch searchId sp, MergeProfile userId pp])"
  from perform_cases [OF assms]
  have w': "w' = (apply_effect ?e (pop_fault w))\<lparr>journal := journal w @ [?e]\<rparr>"
    by simp
  have v: "searches ?v = searches (pop_fault w) \<and> profiles ?v = profiles (pop_fault w)
     \<and> subscriptions ?v = subscriptions (pop_fault w)
     \<and> identities ?v = identities (pop_fault w) \<and> faults ?v = faults (pop_fault w)
     \<and> journal ?v = journal (pop_fault w)
     \<and> map snd (leads ?v) = map snd (leads (pop_fault w)) @ map (lead_doc env userId searchId) chunk"
    by (rule fold_lead_writes)
  have "apply_effect ?e (pop_fault w) =
      apply_batch_op (MergeProfile userId pp) (apply_batch_op (MergeSearch searchId sp) ?v)"
    by simp
  with v show ?thesis by (simp add: w' pop_fault_def)
qed

lemma io_bind_cases:
  assumes "io_bind m f w = (r, w')"
  shows "(\<exists>msg. m w = (Inl msg, w') \<and> r = Inl msg)
       \<or> (\<exists>v w1. m w = (Inr v, w1) \<and> f v w1 = (r, w'))"
  using assms by (auto simp: io_bind_def split: prod.splits sum.splits)

lemma io_bind_ok: "m w = (Inr v, w1) \<Longrightarrow> io_bind m f w = f v w1"
  by (simp add: io_bind_def)

lemma io_bind_thrown: "m w = (Inl msg, w1) \<Longrightarrow> io_bind m f w = (Inl msg, w1)"
  by (simp add: io_bind_def)

lemma commit_chunks_thrown:
  "commit_chunks env userId searchId L cur chunks w = (Inl msg, w') \<Longrightarrow>
     searches w' = searches w \<and> profiles w' = profiles w"
proof (induction chunks arbitrary: w)
  case Nil
  then show ?case by (simp add: io_return_def)
next
  case (Cons chunk rest)
  let ?ops = "lead_writes env userId searchId chunk @
           (if rest = []
            then [MergeSearch searchId (completed_patch env (length L)),
                  MergeProfile userId (usage_patch env (cur + int (length L)))]
            else [])"
  from Cons.prems have
    "io_bind (perform (BatchCommit ?ops))
       (\<lambda>_. commit_chunks env userId searchId L cur rest) w = (Inl msg, w')"
    by simp
  from io_bind_cases [OF this]
  consider (first) "perform (BatchCommit ?ops) w = (Inl msg, w')"
    | (later) w1 where "perform (BatchCommit ?ops) w = (Inr (), w1)"
        "commit_chunks env userId searchId L cur rest w1 = (Inl msg, w')"
    by auto
  then show ?case
  proof cases
    case first
    from perform_cases [OF this] show ?thesis by (simp add: pop_fault_def)
  next
    case later
    show ?thesis
    proof (cases "rest = []")
      case True
      with later(2) show ?thesis by (simp add: io_return_def)
    next
      case False
      with later(1) have "perform (BatchCommit (lead_writes env userId searchId chunk)) w = (Inr (), w1)"
        by simp
      from perform_chunk [OF this] Cons.IH [OF later(2)] show ?thesis by simp
    qed
  qed
qed

lemma commit_chunks_done:
  "commit_chunks env userId searchId L cur chunks w = (Inr (), w') \<Longrightarrow> chunks \<noteq> [] \<Longrightarrow>
     searches w' = put_search searchId
        (merge_search (completed_patch env (length L)) (map_of (searches w) searchId)) (searches w)
     \<and> profiles w' = (profiles w)(userId \<mapsto>
          merge_profile (usage_patch env (cur + int (length L))) (profiles w userId))
     \<and> subscriptions w' = subscriptions w \<and> identities w' = identities w
     \<and> map snd (leads w') = map snd (leads w) @ map (lead_doc env userId searchId) (concat chunks)"
proof (induction chunks arbitrary: w)
  case Nil
  then show ?case by simp
next
  case (Cons chunk rest)
  let ?ops = "lead_writes env userId searchId chunk @
           (if rest = []
            then [MergeSearch searchId (completed_patch env (length L)),
                  MergeProfile userId (usage_patch env (cur + int (length L)))]
            else [])"
  from Cons.prems have
    "io_bind (perform (BatchCommit ?ops))
       (\<lambda>_. commit_chunks env userId searchId L cur rest) w = (Inr (), w')"
    by simp
  from io_bind_cases [OF this]
  obtain w1 where first: "perform (BatchCommit ?ops) w = (Inr (), w1)"
    and later: "commit_chunks env userId searchId L cur rest w1 = (Inr (), w')"
    by auto
  show ?case
  proof (cases "rest = []")
    case True
    with later have "w' = w1" by (simp add: io_return_def)
    moreover from first True have
      "perform (BatchCommit (lead_writes env userId searchId chunk
              @ [MergeSearch searchId (completed_patch env (length L)),
                 MergeProfile userId (usage_patch env (cur + int (length L)))])) w = (Inr (), w1)"
      by simp
    from perform_final_chunk [OF this] have
      "searches w1 = put_search searchId
        (merge_search (completed_patch env (length L)) (map_of (searches w) searchId)) (searches w)"
      "profiles w1 = (profiles w)(userId \<mapsto>
          merge_profile (usage_patch env (cur + int (length L))) (profiles w userId))"
      "subscriptions w1 = subscriptions w" "identities w1 = identities w"
      "map snd (leads w1) = map snd (leads w) @ map (lead_doc env userId searchId) chunk"
      by simp_all
    ultimately show ?thesis using True by simp
  next
    case False
    with first have "perform (BatchCommit (lead_writes env userId searchId chunk)) w = (Inr (), w1)"
      by simp
    from perform_chunk [OF this] Cons.IH [OF later False] show ?thesis by simp
  qed
qed

lemma commit_chunks_last:
  "commit_chunks env userId searchId L cur [chunk] =
     io_bind (perform (BatchCommit (lead_writes env userId searchId chunk @
               [MergeSearch searchId (completed_patch env (length L)),
                MergeProfile userId (usage_patch env (cur + int (length L)))])))
       (\<lambda>_. io_return ())"
  by simp

lemma commit_chunks_more:
  "rest \<noteq> [] \<Longrightarrow> commit_chunks env userId searchId L cur (chunk # rest) =
     io_bind (perform (BatchCommit (lead_writes env userId searchId chunk)))
       (\<lambda>_. commit_chunks env userId searchId L cur rest)"
  by simp

lemma commit_chunks_no_faults:
  "chunks \<noteq> [] \<Longrightarrow> faults w = [] \<Longrightarrow>
     \<exists>w'. commit_chunks env userId searchId L cur chunks w = (Inr (), w') \<and> faults w' = []
       \<and> journal w' = journal w @
            map (\<lambda>chunk. BatchCommit (lead_writes env userId searchId chunk)) (butlast chunks) @
            [BatchCommit (lead_writes env userId searchId (last chunks) @
               [MergeSearch searchId (completed_patch env (length L)),
                MergeProfile userId (usage_patch env (cur + int (length L)))])]"
proof (induction chunks arbitrary: w rule: list_nonempty_induct)
  case (single chunk)
  let ?e = "BatchCommit (lead_writes env userId searchId chunk @
               [MergeSearch searchId (completed_patch env (length L)),
                MergeProfile userId (usage_patch env (cur + int (length L)))])"
  obtain w1 where first: "perform ?e w = (Inr (), w1)"
    using perform_ok [OF single] by blast
  from perform_final_chunk [OF first] single
  have "faults w1 = []" "journal w1 = journal w @ [?e]" by simp_all
  moreover have "commit_chunks env userId searchId L cur [chunk] w = (Inr (), w1)"
    using first by (simp add: io_bind_def io_return_def)
  ultimately show ?case by simp
next
  case (cons chunk rest)
  let ?e = "BatchCommit (lead_writes env userId searchId chunk)"
  obtain w1 where first: "perform ?e w = (Inr (), w1)"
    using perform_ok [OF cons.prems] by blast
  from perform_chunk [OF first] cons.prems
  have f: "faults w1 = []" and j: "journal w1 = journal w @ [?e]" by simp_all
  from cons.IH [OF f] obtain w' where
    rest: "commit_chunks env userId searchId L cur rest w1 = (Inr (), w')" "faults w' = []"
      "journal w' = journal w1 @
            map (\<lambda>chunk. BatchCommit (lead_writes env userId searchId chunk)) (butlast rest) @
            [BatchCommit (lead_writes env userId searchId (last rest) @
               [MergeSearch searchId (completed_patch env (length L)),
                MergeProfile userId (usage_patch env (cur + int (length L)))])]"
    by blast
  have "commit_chunks env userId searchId L cur (chunk # rest) w = (Inr (), w')"
    using first rest(1) cons.hyps by (simp add: io_bind_def)
  with rest(2,3) j cons.hyps show ?case by simp
qed

definition env_demo :: Env where
  "env_demo =
     \<lparr> APIFY_TOKEN = None, now = ''2026-02-18T00:00:00.000Z'', math_random = (\<lambda>k. 1 / 2),
       actor_run = (\<lambda>q m. RunFails ''fetch failed''),
       dataset_items = (\<lambda>d. DatasetFails ''fetch failed''),
       site_html = (\<lambda>url. None) \<rparr>"

definition lead_x :: LeadPayload where
  "lead_x =
     \<lparr> business_name = Some ''Cafe X'', address = None, phone = None,
       website = Some ''https://x.example'', email = None, rating = Some 4.2,
       reviews_count = None, category = Some ''cafe'', latitude = Some 1.5,
       longitude = Some 2.5 \<rparr>"

definition profile_u1 :: ProfileData where
  "profile_u1 =
     \<lparr> profile_email = Some ''u1@example.com'', full_name = None, plan = Some Starter,
       leads_used = Some 1999, leads_limit = Some 2000, is_suspended = Some False,
       suspended_at = None, profile_updated_at = None \<rparr>"

definition search_s1 :: SearchData where
  "search_s1 =
     \<lparr> user_id = Some ''u1'', keyword = Text ''cafe'', city = Text ''Lima'',
       country = Text ''Peru'', max_results = Some 2, status = Some Queued,
       total_results = Some 0, error_message = None, apify_run_id = None,
       updated_at = None \<rparr>"

definition world_u1 :: World where
  "world_u1 =
     \<lparr> profiles = [''u1'' \<mapsto> profile_u1], searches = [(''s1'', search_s1)], leads = [],
       subscriptions = Map.empty, identities = [''u1'' \<mapsto> False], faults = [],
       journal = [] \<rparr>"

lemma merge_completed:
  "status (merge_search (completed_patch env n) old) = Some Completed
   \<and> total_results (merge_search (completed_patch env n) old) = Some (int n)
   \<and> error_message (merge_search (completed_patch env n) old) = None"
  by (simp add: merge_search_def completed_patch_def)

lemma merge_usage:
  "leads_used (merge_profile (usage_patch env n) old) = Some n"
  by (simp add: merge_profile_def usage_patch_def)

lemma writeLeadsAndFinalize_empty:
  "writeLeadsAndFinalize env userId searchId [] cur =
     perform (SearchSet searchId (completed_patch env 0))"
  by (simp add: writeLeadsAndFinalize_def)

lemma writeLeadsAndFinalize_chunks:
  "all_leads \<noteq> [] \<Longrightarrow> writeLeadsAndFinalize env userId searchId all_leads cur =
     commit_chunks env userId searchId all_leads cur (chunkArray all_leads 400)"
  by (simp add: writeLeadsAndFinalize_def)

lemma perform_SearchSet:
  assumes "perform (SearchSet k patch) w = (Inr (), w')"
  shows "searches w' = put_search k (merge_search patch (map_of (searches w) k)) (searches w)
     \<and> profiles w' = profiles w \<and> leads w' = leads w \<and> subscriptions w' = subscriptions w
     \<and> identities w' = identities w \<and> faults w' = tl (faults w)
     \<and> journal w' = journal w @ [SearchSet k patch]"
  using perform_cases [OF assms] by (simp add: pop_fault_def)

lemma perform_thrown:
  assumes "perform e w = (Inl msg, w')"
  shows "w' = pop_fault w"
  using perform_cases [OF assms] by simp

lemma writeLeadsAndFinalize_no_faults:
  assumes "writeLeadsAndFinalize env userId searchId all_leads cur w = (r, w')"
    and "faults w = []"
  shows "r = Inr () \<and> faults w' = [] \<and>
     (\<exists>chunks. concat chunks = all_leads
        \<and> (\<forall>c \<in> set chunks. 0 < length c \<and> length c \<le> 400)
        \<and> journal w' = journal w @
            (if all_leads = [] then [SearchSet searchId (completed_patch env 0)]
             else map (\<lambda>c. BatchCommit (lead_writes env userId searchId c)) (butlast chunks) @
               [BatchCommit (lead_writes env userId searchId (last chunks) @
                  [MergeSearch searchId (completed_patch env (length all_leads)),
                   MergeProfile userId (usage_patch env (cur + int (length all_leads)))])]))"
proof (cases "all_leads = []")
  case True
  have "perform (SearchSet searchId (completed_patch env 0)) w = (r, w')"
    using assms(1) True by (simp add: writeLeadsAndFinalize_empty)
  with perform_ok [OF assms(2), of "SearchSet searchId (completed_patch env 0)"]
  have r: "r = Inr ()" by simp
  with \<open>perform (SearchSet searchId (completed_patch env 0)) w = (r, w')\<close>
  have p: "perform (SearchSet searchId (completed_patch env 0)) w = (Inr (), w')" by simp
  from perform_SearchSet [OF p] assms(2)
  have f: "faults w' = []"
    and j: "journal w' = journal w @ [SearchSet searchId (completed_patch env 0)]"
    by simp_all
  have "concat [] = all_leads
     \<and> (\<forall>c \<in> set ([] :: LeadPayload list list). 0 < length c \<and> length c \<le> 400)
     \<and> journal w' = journal w @
            (if all_leads = [] then [SearchSet searchId (completed_patch env 0)]
             else map (\<lambda>c. BatchCommit (lead_writes env userId searchId c)) (butlast []) @
               [BatchCommit (lead_writes env userId searchId (last []) @
                  [MergeSearch searchId (completed_patch env (length all_leads)),
                   MergeProfile userId (usage_patch env (cur + int (length all_leads)))])])"
    using True j by simp
  then have "\<exists>chunks. concat chunks = all_leads
        \<and> (\<forall>c \<in> set chunks. 0 < length c \<and> length c \<le> 400)
        \<and> journal w' = journal w @
            (if all_leads = [] then [SearchSet searchId (completed_patch env 0)]
             else map (\<lambda>c. BatchCommit (lead_writes env userId searchId c)) (butlast chunks) @
               [BatchCommit (lead_writes env userId searchId (last chunks) @
                  [MergeSearch searchId (completed_patch env (length all_leads)),
                   MergeProfile userId (usage_patch env (cur + int (length all_leads)))])])"
    by (rule exI)
  with r f show ?thesis by simp
next
  case False
  let ?chunks = "chunkArray all_leads 400"
  have ne: "?chunks \<noteq> []" using False by (simp add: chunkArray_not_empty)
  have c: "commit_chunks env userId searchId all_leads cur ?chunks w = (r, w')"
    using assms(1) False by (simp add: writeLeadsAndFinalize_chunks)
  from commit_chunks_no_faults [OF ne assms(2), of env userId searchId all_leads cur]
  obtain v where v: "commit_chunks env userId searchId all_leads cur ?chunks w = (Inr (), v)"
    "faults v = []"
    "journal v = journal w @
            map (\<lambda>c. BatchCommit (lead_writes env userId searchId c)) (butlast ?chunks) @
               [BatchCommit (lead_writes env userId searchId (last ?chunks) @
                  [MergeSearch searchId (completed_patch env (length all_leads)),
                   MergeProfile userId (usage_patch env (cur + int (length all_leads)))])]"
    by blast
  from c v(1) have r: "r = Inr ()" and w': "w' = v" by simp_all
  have parts: "concat ?chunks = all_leads" by (simp add: chunkArray_partition)
  have sizes: "\<forall>c \<in> set ?chunks. 0 < length c \<and> length c \<le> 400"
  proof
    fix c assume "c \<in> set ?chunks"
    with chunkArray_sizes [of 400 c all_leads] show "0 < length c \<and> length c \<le> 400"
      by simp
  qed
  have "concat ?chunks = all_leads
     \<and> (\<forall>c \<in> set ?chunks. 0 < length c \<and> length c \<le> 400)
     \<and> journal w' = journal w @
            (if all_leads = [] then [SearchSet searchId (completed_patch env 0)]
             else map (\<lambda>c. BatchCommit (lead_writes env userId searchId c)) (butlast ?chunks) @
               [BatchCommit (lead_writes env userId searchId (last ?chunks) @
                  [MergeSearch searchId (completed_patch env (length all_leads)),
                   MergeProfile userId (usage_patch env (cur + int (length all_leads)))])])"
    using parts sizes v(3) False by (simp only: w' if_False simp_thms)
  then have "\<exists>chunks. concat chunks = all_leads
        \<and> (\<forall>c \<in> set chunks. 0 < length c \<and> length c \<le> 400)
        \<and> journal w' = journal w @
            (if all_leads = [] then [SearchSet searchId (completed_patch env 0)]
             else map (\<lambda>c. BatchCommit (lead_writes env userId searchId c)) (butlast chunks) @
               [BatchCommit (lead_writes env userId searchId (last chunks) @
                  [MergeSearch searchId (completed_patch env (length all_leads)),
                   MergeProfile userId (usage_patch env (cur + int (length all_leads)))])])"
    by (rule exI)
  with r v(2) w' show ?thesis by simp
qed

lemma writeLeadsAndFinalize_done:
  assumes "writeLeadsAndFinalize env userId searchId all_leads cur w = (Inr (), w')"
  shows "searches w' = put_search searchId
        (merge_search (completed_patch env (length all_leads)) (map_of (searches w) searchId))
        (searches w)
     \<and> profiles w' = (if all_leads = [] then profiles w else (profiles w)(userId \<mapsto>
          merge_profile (usage_patch env (cur + int (length all_leads))) (profiles w userId)))
     \<and> subscriptions w' = subscriptions w \<and> identities w' = identities w
     \<and> map snd (leads w') = map snd (leads w) @ map (lead_doc env userId searchId) all_leads"
proof (cases "all_leads = []")
  case True
  with assms have "perform (SearchSet searchId (completed_patch env 0)) w = (Inr (), w')"
    by (simp add: writeLeadsAndFinalize_empty)
  from perform_SearchSet [OF this] True show ?thesis by simp
next
  case False
  with assms have c: "commit_chunks env userId searchId all_leads cur (chunkArray all_leads 400) w
      = (Inr (), w')"
    by (simp add: writeLeadsAndFinalize_chunks)
  have ne: "chunkArray all_leads 400 \<noteq> []" using False by (simp add: chunkArray_not_empty)
  from commit_chunks_done [OF c ne] False show ?thesis
    by (simp add: chunkArray_partition)
qed

lemma writeLeadsAndFinalize_thrown:
  assumes "writeLeadsAndFinalize env userId searchId all_leads cur w = (Inl msg, w')"
  shows "searches w' = searches w \<and> profiles w' = profiles w"
proof (cases "all_leads = []")
  case True
  with assms have "perform (SearchSet searchId (completed_patch env 0)) w = (Inl msg, w')"
    by (simp add: writeLeadsAndFinalize_empty)
  from perform_thrown [OF this] show ?thesis by (simp add: pop_fault_def)
next
  case False
  with assms show ?thesis
    by (simp add: writeLeadsAndFinalize_chunks commit_chunks_thrown)
qed

lemma writeLeadsAndFinalize_empty_profile:
  assumes "writeLeadsAndFinalize env userId searchId [] cur w = (r, w')"
  shows "profiles w' = profiles w"
proof -
  from assms have "perform (SearchSet searchId (completed_patch env 0)) w = (r, w')"
    by (simp add: writeLeadsAndFinalize_empty)
  from perform_cases [OF this] show ?thesis by (auto simp: pop_fault_def)
qed

lemma writeLeadsAndFinalize_effects:
  assumes "writeLeadsAndFinalize env userId searchId all_leads cur w = (r, w')"
  shows "(faults w = [] \<longrightarrow> r = Inr ()
       \<and> (\<exists>chunks. concat chunks = all_leads
            \<and> (\<forall>c \<in> set chunks. 0 < length c \<and> length c \<le> 400)
            \<and> journal w' = journal w @
               (if all_leads = [] then [SearchSet searchId (completed_patch env 0)]
                else map (\<lambda>c. BatchCommit (lead_writes env userId searchId c)) (butlast chunks) @
                  [BatchCommit (lead_writes env userId searchId (last chunks) @
                    [MergeSearch searchId (completed_patch env (length all_leads)),
                     MergeProfile userId (usage_patch env (cur + int (length all_leads)))])])))
    \<and> (all_leads = [] \<longrightarrow> profiles w' = profiles w)
    \<and> (r = Inr () \<longrightarrow>
          map snd (leads w') = map snd (leads w) @ map (lead_doc env userId searchId) all_leads
        \<and> (\<exists>d. map_of (searches w') searchId = Some d \<and> status d = Some Completed
              \<and> total_results d = Some (int (length all_leads)) \<and> error_message d = None)
        \<and> (all_leads \<noteq> [] \<longrightarrow>
             (\<exists>p. profiles w' userId = Some p
                \<and> leads_used p = Some (cur + int (length all_leads)))))
    \<and> (\<forall>msg. r = Inl msg \<longrightarrow> searches w' = searches w \<and> profiles w' = profiles w)"
proof (intro conjI impI allI)
  assume "faults w = []"
  from writeLeadsAndFinalize_no_faults [OF assms this]
  show "r = Inr ()"
    and "\<exists>chunks. concat chunks = all_leads
            \<and> (\<forall>c \<in> set chunks. 0 < length c \<and> length c \<le> 400)
            \<and> journal w' = journal w @
               (if all_leads = [] then [SearchSet searchId (completed_patch env 0)]
                else map (\<lambda>c. BatchCommit (lead_writes env userId searchId c)) (butlast chunks) @
                  [BatchCommit (lead_writes env userId searchId (last chunks) @
                    [MergeSearch searchId (completed_patch env (length all_leads)),
                     MergeProfile userId (usage_patch env (cur + int (length all_leads)))])])"
    by simp_all
next
  assume "all_leads = []"
  with assms show "profiles w' = profiles w"
    by (simp add: writeLeadsAndFinalize_empty_profile)
next
  assume "r = Inr ()"
  with assms have "writeLeadsAndFinalize env userId searchId all_leads cur w = (Inr (), w')"
    by simp
  note fin = writeLeadsAndFinalize_done [OF this]
  from fin show "map snd (leads w') =
      map snd (leads w) @ map (lead_doc env userId searchId) all_leads"
    by simp
  from fin have "map_of (searches w') searchId =
      Some (merge_search (completed_patch env (length all_leads)) (map_of (searches w) searchId))"
    by simp
  with merge_completed show "\<exists>d. map_of (searches w') searchId = Some d
      \<and> status d = Some Completed
      \<and> total_results d = Some (int (length all_leads)) \<and> error_message d = None"
    by blast
  assume "all_leads \<noteq> []"
  with fin have "profiles w' userId = Some
      (merge_profile (usage_patch env (cur + int (length all_leads))) (profiles w userId))"
    by simp
  with merge_usage show "\<exists>p. profiles w' userId = Some p
      \<and> leads_used p = Some (cur + int (length all_leads))"
    by blast
next
  fix msg assume "r = Inl msg"
  with assms have "writeLeadsAndFinalize env userId searchId all_leads cur w = (Inl msg, w')"
    by simp
  from writeLeadsAndFinalize_thrown [OF this]
  show "searches w' = searches w" and "profiles w' = profiles w" by simp_all
qed

text \<open>
  Claim C1. \<^verbatim>\<open>writeLeadsAndFinalize\<close> cuts the leads into chunks of at most 400 that
  together are the lead list, and commits one batch per chunk holding that chunk's lead
  writes, each a new document with the fields of the lead, the search id, the user id and
  the time of the call; only the last batch also holds the Search update (completed, total_results the
  number of leads, error_message null) and the Profile update (leads_used the current usage
  plus the number of leads). With no lead it makes the single Search update and leaves the
  profiles alone. When a commit fails the searches and the profiles are as before the call;
  when the call succeeds every lead is stored, the Search is completed with the count, and
  leads_used is the current usage plus the count.
\<close>

theorem writeLeadsAndFinalize_atomic:
  assumes "writeLeadsAndFinalize env userId searchId all_leads cur w = (r, w')"
  shows "(faults w = [] \<longrightarrow> r = Inr ()
       \<and> (\<exists>chunks. concat chunks = all_leads
            \<and> (\<forall>c \<in> set chunks. 0 < length c \<and> length c \<le> 400)
            \<and> journal w' = journal w @
               (if all_leads = []
                then [SearchSet searchId
                        [Status Completed, TotalResults 0, ErrorMessage None,
                         UpdatedAt (now env)]]
                else map (\<lambda>c. BatchCommit
                            (map (\<lambda>l. NewLead \<lparr> lead = l, search_id = searchId,
                                    lead_user_id = userId, created_at = now env \<rparr>) c))
                       (butlast chunks) @
                  [BatchCommit
                     (map (\<lambda>l. NewLead \<lparr> lead = l, search_id = searchId,
                             lead_user_id = userId, created_at = now env \<rparr>) (last chunks) @
                      [MergeSearch searchId
                         [Status Completed, TotalResults (int (length all_leads)),
                          ErrorMessage None, UpdatedAt (now env)],
                       MergeProfile userId
                         [LeadsUsed (cur + int (length all_leads)),
                          ProfileUpdatedAt (now env)]])])))
    \<and> (all_leads = [] \<longrightarrow> profiles w' = profiles w)
    \<and> (r = Inr () \<longrightarrow>
          map snd (leads w') = map snd (leads w)
            @ map (\<lambda>l. \<lparr> lead = l, search_id = searchId, lead_user_id = userId,
                        created_at = now env \<rparr>) all_leads
        \<and> (\<exists>d. map_of (searches w') searchId = Some d \<and> status d = Some Completed
              \<and> total_results d = Some (int (length all_leads)) \<and> error_message d = None)
        \<and> (all_leads \<noteq> [] \<longrightarrow>
             (\<exists>p. profiles w' userId = Some p
                \<and> leads_used p = Some (cur + int (length all_leads)))))
    \<and> (\<forall>msg. r = Inl msg \<longrightarrow> searches w' = searches w \<and> profiles w' = profiles w)"
  using writeLeadsAndFinalize_effects [OF assms]
  unfolding lead_writes_def lead_doc_def completed_patch_def usage_patch_def of_nat_0 .

theorem writeLeadsAndFinalize_atomic_witness:
  "fst (writeLeadsAndFinalize env_demo ''u1'' ''s1'' [lead_x] 1999 world_u1) = Inr ()
   \<and> map snd (leads (snd (writeLeadsAndFinalize env_demo ''u1'' ''s1'' [lead_x] 1999 world_u1)))
       = [\<lparr> lead = lead_x, search_id = ''s1'', lead_user_id = ''u1'',
            created_at = ''2026-02-18T00:00:00.000Z'' \<rparr>]
   \<and> (\<exists>d. map_of (searches (snd (writeLeadsAndFinalize env_demo ''u1'' ''s1'' [lead_x] 1999
              world_u1))) ''s1'' = Some d
         \<and> status d = Some Completed \<and> total_results d = Some 1 \<and> error_message d = None)
   \<and> (\<exists>p. profiles (snd (writeLeadsAndFinalize env_demo ''u1'' ''s1'' [lead_x] 1999 world_u1))
            ''u1'' = Some p \<and> leads_used p = Some 2000)
   \<and> fst (writeLeadsAndFinalize env_demo ''u1'' ''s1'' [lead_x] 1999
          (world_u1\<lparr>faults := [Some ''unavailable'']\<rparr>)) = Inl ''unavailable''
   \<and> searches (snd (writeLeadsAndFinalize env_demo ''u1'' ''s1'' [lead_x] 1999
          (world_u1\<lparr>faults := [Some ''unavailable'']\<rparr>))) = searches world_u1
   \<and> profiles (snd (writeLeadsAndFinalize env_demo ''u1'' ''s1'' [lead_x] 1999
          (world_u1\<lparr>faults := [Some ''unavailable'']\<rparr>))) = profiles world_u1
   \<and> profiles (snd (writeLeadsAndFinalize env_demo ''u1'' ''s1'' [] 1999 world_u1))
       = profiles world_u1"
proof -
  let ?ok = "writeLeadsAndFinalize env_demo ''u1'' ''s1'' [lead_x] 1999 world_u1"
  let ?bad = "writeLeadsAndFinalize env_demo ''u1'' ''s1'' [lead_x] 1999
          (world_u1\<lparr>faults := [Some ''unavailable'']\<rparr>)"
  let ?none = "writeLeadsAndFinalize env_demo ''u1'' ''s1'' [] 1999 world_u1"
  have calm: "faults world_u1 = []" "leads world_u1 = []" by (simp_all add: world_u1_def)
  have thrown: "fst ?bad = Inl ''unavailable''"
    by (simp add: writeLeadsAndFinalize_def chunkArray_def chunk_from.simps slice_def
        io_bind_def perform_def next_fault_def io_return_def)
  note ok = writeLeadsAndFinalize_atomic
    [where w = world_u1 and all_leads = "[lead_x]", OF prod.collapse [symmetric]]
  note bad = writeLeadsAndFinalize_atomic
    [where w = "world_u1\<lparr>faults := [Some ''unavailable'']\<rparr>", OF prod.collapse [symmetric]]
  note none = writeLeadsAndFinalize_atomic
    [where w = world_u1 and all_leads = "[]", OF prod.collapse [symmetric]]
  have 1: "fst ?ok = Inr ()" using ok [of env_demo "''u1''" "''s1''" 1999] calm by blast
  have 2: "map snd (leads (snd ?ok)) =
      [\<lparr> lead = lead_x, search_id = ''s1'', lead_user_id = ''u1'',
         created_at = ''2026-02-18T00:00:00.000Z'' \<rparr>]"
    using ok [of env_demo "''u1''" "''s1''" 1999] 1 calm by (simp add: env_demo_def)
  have 3: "\<exists>d. map_of (searches (snd ?ok)) ''s1'' = Some d
         \<and> status d = Some Completed \<and> total_results d = Some 1 \<and> error_message d = None"
    using ok [of env_demo "''u1''" "''s1''" 1999] 1 by simp
  have 4: "\<exists>p. profiles (snd ?ok) ''u1'' = Some p \<and> leads_used p = Some 2000"
    using ok [of env_demo "''u1''" "''s1''" 1999] 1 by simp
  have 5: "searches (snd ?bad) = searches world_u1 \<and> profiles (snd ?bad) = profiles world_u1"
    using bad [of env_demo "''u1''" "''s1''" "[lead_x]" 1999] thrown by simp
  have 6: "profiles (snd ?none) = profiles world_u1"
    using none [of env_demo "''u1''" "''s1''" 1999] by simp
  from 1 2 3 4 thrown 5 6 show ?thesis by simp
qed

section \<open>The email enrichment worker\<close>

text \<open>
  The pattern \<^verbatim>\<open>/[a-zA-Z0-9._%+-]+@[a-zA-Z0-9.-]+\.[a-zA-Z]{2,}/\<close>. A match that starts at the
  head of \<open>s\<close> takes the longest run of local characters, then \<^verbatim>\<open>@\<close>; in the longest run
  \<open>m\<close> of domain characters that follows, the domain part is cut as late as possible before a
  dot that at least two letters follow (\<open>tld_at\<close> tries the cuts from the longest down), and
  the match ends with the longest run of letters after that dot. \<open>match_email\<close> is the
  leftmost match, \<^verbatim>\<open>html.match(...)[0]\<close>, or \<open>None\<close> for \<^verbatim>\<open>null\<close>.
\<close>

definition alpha_char :: "char \<Rightarrow> bool" where
  "alpha_char c = (c \<in> set ''abcdefghijklmnopqrstuvwxyzABCDEFGHIJKLMNOPQRSTUVWXYZ'')"

definition domain_char :: "char \<Rightarrow> bool" where
  "domain_char c = (alpha_char c \<or> c \<in> set ''0123456789.-'')"

definition local_char :: "char \<Rightarrow> bool" where
  "local_char c = (alpha_char c \<or> c \<in> set ''0123456789._%+-'')"

fun tld_at :: "string \<Rightarrow> nat \<Rightarrow> string option" where
  "tld_at m 0 = None"
| "tld_at m (Suc k) =
     (let tld = takeWhile alpha_char (drop (Suc (Suc k)) m)
      in if Suc k < length m \<and> m ! Suc k = CHR ''.'' \<and> 2 \<le> length tld
         then Some (take (Suc (Suc k)) m @ tld)
         else tld_at m k)"

definition email_at :: "string \<Rightarrow> string option" where
  "email_at s =
     (let local_part = takeWhile local_char s
      in if local_part = [] then None
         else (case dropWhile local_char s of
                 [] \<Rightarrow> None
               | c # after \<Rightarrow>
                   if c = CHR ''@''
                   then (let m = takeWhile domain_char after
                         in case tld_at m (length m) of
                              None \<Rightarrow> None
                            | Some domain_part \<Rightarrow> Some (local_part @ CHR ''@'' # domain_part))
                   else None))"

fun match_email :: "string \<Rightarrow> string option" where
  "match_email [] = None"
| "match_email (c # cs) =
     (case email_at (c # cs) of Some found \<Rightarrow> Some found | None \<Rightarrow> match_email cs)"

text \<open>A string field is truthy when it is present and not empty.\<close>

definition truthy :: "string option \<Rightarrow> bool" where
  "truthy s = (case s of None \<Rightarrow> False | Some v \<Rightarrow> v \<noteq> [])"

text \<open>\<^verbatim>\<open>fetch(url)\<close> followed by \<^verbatim>\<open>response.text()\<close>; the attempt is journalled.\<close>

definition fetch_text :: "Env \<Rightarrow> string \<Rightarrow> string io" where
  "fetch_text env url w =
     (case site_html env url of
        None \<Rightarrow> (Inl ''fetch failed'', w\<lparr>journal := journal w @ [SiteFetch url]\<rparr>)
      | Some html \<Rightarrow> (Inr html, w\<lparr>journal := journal w @ [SiteFetch url]\<rparr>))"

text \<open>The query on \<^verbatim>\<open>leads\<close> by search id and website, with its limit.\<close>

definition leads_of_search_site ::
  "string \<Rightarrow> string option \<Rightarrow> nat \<Rightarrow> (nat \<times> LeadDoc) list io" where
  "leads_of_search_site searchId site limit =
     db_read (\<lambda>w. take limit
       (filter (\<lambda>(i, d). search_id d = searchId \<and> website (lead d) = site) (leads w)))"

definition enrich_one :: "Env \<Rightarrow> string \<Rightarrow> LeadPayload \<Rightarrow> unit io" where
  "enrich_one env searchId candidate =
     io_bind (fetch_text env (tested (website candidate))) (\<lambda>html.
       case match_email html of
         None \<Rightarrow> io_return ()
       | Some emailMatch \<Rightarrow>
           io_bind (leads_of_search_site searchId (website candidate) 1) (\<lambda>leadSnapshot.
             case leadSnapshot of
               [] \<Rightarrow> io_return ()
             | (i, d) # others \<Rightarrow> perform (LeadSetEmail i emailMatch)))"

fun enrich_each :: "Env \<Rightarrow> string \<Rightarrow> LeadPayload list \<Rightarrow> unit io" where
  "enrich_each env searchId [] = io_return ()"
| "enrich_each env searchId (candidate # rest) =
     io_bind (io_ignore_errors (enrich_one env searchId candidate))
       (\<lambda>_. enrich_each env searchId rest)"

definition maybeEnrichEmails :: "Env \<Rightarrow> PlanType \<Rightarrow> string \<Rightarrow> LeadPayload list \<Rightarrow> unit io" where
  "maybeEnrichEmails env pl searchId found =
     (if pl \<noteq> Growth \<and> pl \<noteq> Pro then io_return ()
      else enrich_each env searchId
             (take 20 (filter (\<lambda>l. truthy (website l) \<and> \<not> truthy (email l)) found)))"

section \<open>The search orchestrator\<close>

text \<open>
  The handler of \<^verbatim>\<open>POST /api/run-apify-search\<close>, from the point where the caller's token
  has been verified: \<open>user\<close> is the decoded caller and \<open>requested_id\<close> the field \<^verbatim>\<open>search_id\<close> of the request
  body (\<open>None\<close> when it is missing or not a string).
\<close>

record DecodedUser =
  uid :: string
  user_email :: "string option"

datatype Mode = Demo | Live

datatype Response =
    SendError int string
  | RunResponse Mode nat
  | SuccessResponse
  | UsersResponse

fun message_of :: "js_error \<Rightarrow> string" where
  "message_of (TypeError m) = m"
| "message_of (Error m) = m"

definition failed_patch :: "Env \<Rightarrow> string \<Rightarrow> SearchField list" where
  "failed_patch env message = [Status Failed, ErrorMessage (Some message), UpdatedAt (now env)]"

text \<open>
  \<^verbatim>\<open>profile.leads_used ?? 0\<close>, \<^verbatim>\<open>profile.leads_limit ?? 2000\<close> and
  \<^verbatim>\<open>profile.plan ?? "starter"\<close>
\<close>

definition leadsUsed_of :: "ProfileData \<Rightarrow> int" where
  "leadsUsed_of profile = (case leads_used profile of None \<Rightarrow> 0 | Some n \<Rightarrow> n)"

definition leadsLimit_of :: "ProfileData \<Rightarrow> int" where
  "leadsLimit_of profile = (case leads_limit profile of None \<Rightarrow> 2000 | Some n \<Rightarrow> n)"

definition plan_of :: "ProfileData \<Rightarrow> PlanType" where
  "plan_of profile = (case plan profile of None \<Rightarrow> Starter | Some p \<Rightarrow> p)"

definition running_patch :: "Env \<Rightarrow> SearchField list" where
  "running_patch env = [Status Running, ErrorMessage None, UpdatedAt (now env)]"

definition live_search ::
  "Env \<Rightarrow> string \<Rightarrow> string \<Rightarrow> SearchData \<Rightarrow> int \<Rightarrow> PlanType \<Rightarrow> Response io" where
  "live_search env userId searchId search leadsUsed pl =
     (case actor_run env
             (template (keyword search) @ '' in '' @ template (city search) @ '', ''
                @ template (country search))
             (max_results search) of
        RunFails message \<Rightarrow> io_throw message
      | RunNotOk code details \<Rightarrow>
          io_throw (''Apify error ['' @ string_of_int code @ '']: '' @ details)
      | RunStarted run_id dataset_id \<Rightarrow>
          io_bind
            (if truthy run_id
             then perform (SearchSet searchId [ApifyRunId (tested run_id), UpdatedAt (now env)])
             else io_return ())
            (\<lambda>_.
              if \<not> truthy dataset_id
              then io_bind
                     (perform (SearchSet searchId
                        [Status Completed, TotalResults 0, UpdatedAt (now env)]))
                     (\<lambda>_. io_return (RunResponse Live 0))
              else (case dataset_items env (tested dataset_id) of
                      DatasetFails message \<Rightarrow> io_throw message
                    | DatasetJson items \<Rightarrow>
                        (case (case items of JArr xs \<Rightarrow> normalizeApifyLeads xs | _ \<Rightarrow> Inr []) of
                           Inl e \<Rightarrow> io_throw (message_of e)
                         | Inr found \<Rightarrow>
                             io_bind (writeLeadsAndFinalize env userId searchId found leadsUsed)
                               (\<lambda>_. io_bind (maybeEnrichEmails env pl searchId found)
                               (\<lambda>_. io_return (RunResponse Live (length found))))))))"

definition run_search_try :: "Env \<Rightarrow> DecodedUser \<Rightarrow> string \<Rightarrow> Response io" where
  "run_search_try env user searchId =
     io_bind (db_read (\<lambda>w. map_of (searches w) searchId)) (\<lambda>searchSnapshot.
       case searchSnapshot of
         None \<Rightarrow> io_return (SendError 404 ''Search not found'')
       | Some search \<Rightarrow>
           if user_id search \<noteq> Some (uid user)
           then io_return (SendError 404 ''Search not found'')
           else io_bind (db_read (\<lambda>w. profiles w (uid user))) (\<lambda>profileSnapshot.
             case profileSnapshot of
               None \<Rightarrow> io_return (SendError 500 ''Profile not found'')
             | Some profile \<Rightarrow>
                 let leadsUsed = leadsUsed_of profile;
                     leadsLimit = leadsLimit_of profile;
                     pl = plan_of profile
                 in if is_suspended profile = Some True
                    then io_bind
                           (perform (SearchSet searchId (failed_patch env ''Account suspended'')))
                           (\<lambda>_. io_return (SendError 403 ''Account suspended''))
                    else if leadsLimit \<le> leadsUsed
                    then io_bind
                           (perform (SearchSet searchId (failed_patch env ''Leads quota exceeded'')))
                           (\<lambda>_. io_return (SendError 429 ''Leads quota exceeded''))
                    else io_bind
                           (perform (SearchSet searchId (running_patch env)))
                           (\<lambda>_.
                             if \<not> truthy (APIFY_TOKEN env)
                             then (let mockLeads = buildMockLeads (math_random env) search
                                   in io_bind
                                        (writeLeadsAndFinalize env (uid user) searchId mockLeads
                                           leadsUsed)
                                        (\<lambda>_. io_return (RunResponse Demo (length mockLeads))))
                             else live_search env (uid user) searchId search leadsUsed pl)))"

definition run_apify_search :: "Env \<Rightarrow> DecodedUser \<Rightarrow> string option \<Rightarrow> Response io" where
  "run_apify_search env user requested_id =
     (case requested_id of
        None \<Rightarrow> io_return (SendError 400 ''search_id required'')
      | Some searchId \<Rightarrow>
          if searchId = [] then io_return (SendError 400 ''search_id required'')
          else io_catch (run_search_try env user searchId) (\<lambda>message.
                 io_bind
                   (io_ignore_errors (perform (SearchSet searchId (failed_patch env message))))
                   (\<lambda>_. io_return (SendError 500 message))))"

subsection \<open>The pattern on sample pages\<close>

lemma match_email_in_markup:
  "match_email ''<a href=mailto:info@cafe-x.example.com>write us</a>''
     = Some ''info@cafe-x.example.com''"
  by code_simp

lemma match_email_leftmost:
  "match_email ''a@b.c d@e.fg.'' = Some ''d@e.fg''"
  by code_simp

lemma match_email_cut_at_digit:
  "match_email ''x@y.com1.z'' = Some ''x@y.com''"
  by code_simp

lemma match_email_none:
  "match_email ''no mail here @ all .com'' = None"
  by code_simp

subsection \<open>What a computation adds to the journal\<close>

lemma apply_batch_op_frame [simp]:
  "faults (apply_batch_op b w) = faults w" "journal (apply_batch_op b w) = journal w"
  by (induction b w rule: apply_batch_op.induct) simp_all

lemma fold_apply_batch_op_frame [simp]:
  "faults (fold apply_batch_op ops w) = faults w"
  "journal (fold apply_batch_op ops w) = journal w"
  by (induction ops arbitrary: w) simp_all

lemma apply_effect_frame [simp]:
  "faults (apply_effect e w) = faults w" "journal (apply_effect e w) = journal w"
  by (cases e; simp)+

text \<open>
  Two states with the same documents and identities, and the state reached by applying a
  list of effects in order.
\<close>

definition same_store :: "World \<Rightarrow> World \<Rightarrow> bool" where
  "same_store a b =
     (profiles a = profiles b \<and> searches a = searches b \<and> leads a = leads b
      \<and> subscriptions a = subscriptions b \<and> identities a = identities b)"

definition replay :: "Effect list \<Rightarrow> World \<Rightarrow> World" where
  "replay js w = fold apply_effect js w"

lemma same_store_refl [simp]: "same_store w w"
  by (simp add: same_store_def)

lemma same_store_trans: "same_store a b \<Longrightarrow> same_store b c \<Longrightarrow> same_store a c"
  by (simp add: same_store_def)

lemma same_store_pop_fault [simp]: "same_store (pop_fault w) w"
  by (simp add: same_store_def pop_fault_def)

lemma same_store_journal [simp]: "same_store (w\<lparr>journal := j\<rparr>) w"
  by (simp add: same_store_def)

lemma same_store_apply_batch_op:
  "same_store a b \<Longrightarrow> same_store (apply_batch_op x a) (apply_batch_op x b)"
  by (induction x a rule: apply_batch_op.induct) (simp_all add: same_store_def)

lemma same_store_fold_batch:
  "same_store a b \<Longrightarrow> same_store (fold apply_batch_op ops a) (fold apply_batch_op ops b)"
  by (induction ops arbitrary: a b) (simp_all add: same_store_apply_batch_op)

lemma same_store_apply_effect:
  "same_store a b \<Longrightarrow> same_store (apply_effect e a) (apply_effect e b)"
proof (cases e)
  case (BatchCommit ops)
  assume "same_store a b"
  then show ?thesis unfolding BatchCommit apply_effect.simps by (rule same_store_fold_batch)
next
  case (SearchSet k p)
  assume "same_store a b"
  then show ?thesis unfolding SearchSet apply_effect.simps by (rule same_store_apply_batch_op)
next
  case (ProfileSet k p)
  assume "same_store a b"
  then show ?thesis unfolding ProfileSet apply_effect.simps by (rule same_store_apply_batch_op)
qed (simp_all add: same_store_def)

lemma same_store_replay:
  "same_store a b \<Longrightarrow> same_store (replay js a) (replay js b)"
  unfolding replay_def
  by (induction js arbitrary: a b) (simp_all add: same_store_apply_effect)

lemma replay_append: "replay (js1 @ js2) w = replay js2 (replay js1 w)"
  by (simp add: replay_def)

text \<open>
  \<open>emits Q m\<close>: whatever the state and the faults, \<open>m\<close> only appends to the journal, the
  documents it leaves are those the appended effects \<open>js\<close> produce, and \<open>js\<close> and the
  outcome \<open>r\<close> satisfy \<open>Q js r\<close>.
\<close>

definition emits :: "(Effect list \<Rightarrow> string + 'a \<Rightarrow> bool) \<Rightarrow> 'a io \<Rightarrow> bool" where
  "emits Q m =
     (\<forall>w r w'. m w = (r, w') \<longrightarrow>
        (\<exists>js. journal w' = journal w @ js \<and> same_store w' (replay js w) \<and> Q js r))"

lemma emitsD:
  "emits Q m \<Longrightarrow> m w = (r, w') \<Longrightarrow>
     \<exists>js. journal w' = journal w @ js \<and> same_store w' (replay js w) \<and> Q js r"
  by (simp add: emits_def)

lemma emits_weaken:
  "emits Q m \<Longrightarrow> (\<And>js r. Q js r \<Longrightarrow> Q' js r) \<Longrightarrow> emits Q' m"
  unfolding emits_def by blast

lemma emits_return: "Q [] (Inr v) \<Longrightarrow> emits Q (io_return v)"
  unfolding emits_def io_return_def
  by (intro allI impI exI [of _ "[]"]) (auto simp: replay_def)

lemma emits_throw: "Q [] (Inl msg) \<Longrightarrow> emits Q (io_throw msg)"
  unfolding emits_def io_throw_def
  by (intro allI impI exI [of _ "[]"]) (auto simp: replay_def)

lemma emits_db_read: "(\<And>r. Q [] r) \<Longrightarrow> emits Q (db_read f)"
  unfolding emits_def
proof (intro allI impI)
  fix w r w' assume q: "\<And>r. Q [] r" and "db_read f w = (r, w')"
  from db_read_cases [OF this(2)] q
  have "journal w' = journal w @ [] \<and> same_store w' (replay [] w) \<and> Q [] r"
    by (simp add: pop_fault_def replay_def same_store_def)
  then show "\<exists>js. journal w' = journal w @ js \<and> same_store w' (replay js w) \<and> Q js r" ..
qed

lemma emits_perform:
  assumes "\<And>msg. Q [] (Inl msg)" and "Q [e] (Inr ())"
  shows "emits Q (perform e)"
  unfolding emits_def
proof (intro allI impI)
  fix w r w' assume "perform e w = (r, w')"
  from perform_cases [OF this]
  show "\<exists>js. journal w' = journal w @ js \<and> same_store w' (replay js w) \<and> Q js r"
  proof
    assume a: "r = Inr () \<and> w' = apply_effect e (pop_fault w)\<lparr>journal := journal w @ [e]\<rparr>"
    have "same_store (apply_effect e (pop_fault w)) (apply_effect e w)"
      by (rule same_store_apply_effect) simp
    then have "same_store w' (replay [e] w)"
      using a by (simp add: replay_def same_store_def)
    with a assms(2) have "journal w' = journal w @ [e] \<and> same_store w' (replay [e] w) \<and> Q [e] r"
      by simp
    then show ?thesis ..
  next
    assume "\<exists>msg. r = Inl msg \<and> w' = pop_fault w"
    with assms(1) have "journal w' = journal w @ [] \<and> same_store w' (replay [] w) \<and> Q [] r"
      by (auto simp: pop_fault_def replay_def same_store_def)
    then show ?thesis ..
  qed
qed

lemma emits_fetch_text: "(\<And>r. Q [SiteFetch url] r) \<Longrightarrow> emits Q (fetch_text env url)"
  unfolding emits_def
proof (intro allI impI)
  fix w r w' assume q: "\<And>r. Q [SiteFetch url] r" and "fetch_text env url w = (r, w')"
  then have "w' = w\<lparr>journal := journal w @ [SiteFetch url]\<rparr>"
    by (auto simp: fetch_text_def split: option.splits)
  with q have "journal w' = journal w @ [SiteFetch url]
      \<and> same_store w' (replay [SiteFetch url] w) \<and> Q [SiteFetch url] r"
    by (simp add: replay_def)
  then show "\<exists>js. journal w' = journal w @ js \<and> same_store w' (replay js w) \<and> Q js r" ..
qed

lemma emits_bind:
  assumes m: "emits Q1 m" and f: "\<And>v. emits (Q2 v) (f v)"
    and thrown: "\<And>js msg. Q1 js (Inl msg) \<Longrightarrow> Q js (Inl msg)"
    and both: "\<And>js1 v js2 r. Q1 js1 (Inr v) \<Longrightarrow> Q2 v js2 r \<Longrightarrow> Q (js1 @ js2) r"
  shows "emits Q (io_bind m f)"
  unfolding emits_def
proof (intro allI impI)
  fix w r w' assume "io_bind m f w = (r, w')"
  from io_bind_cases [OF this]
  show "\<exists>js. journal w' = journal w @ js \<and> same_store w' (replay js w) \<and> Q js r"
  proof
    assume "\<exists>msg. m w = (Inl msg, w') \<and> r = Inl msg"
    then obtain msg where "m w = (Inl msg, w')" "r = Inl msg" by blast
    with emitsD [OF m] thrown show ?thesis by blast
  next
    assume "\<exists>v w1. m w = (Inr v, w1) \<and> f v w1 = (r, w')"
    then obtain v w1 where 1: "m w = (Inr v, w1)" and 2: "f v w1 = (r, w')" by blast
    from emitsD [OF m 1] obtain js1 where
      j1: "journal w1 = journal w @ js1" "same_store w1 (replay js1 w)" "Q1 js1 (Inr v)"
      by blast
    from emitsD [OF f 2] obtain js2 where
      j2: "journal w' = journal w1 @ js2" "same_store w' (replay js2 w1)" "Q2 v js2 r"
      by blast
    have "same_store (replay js2 w1) (replay js2 (replay js1 w))"
      using j1(2) by (rule same_store_replay)
    with j2(2) have "same_store w' (replay (js1 @ js2) w)"
      unfolding replay_append by (rule same_store_trans)
    with j1 j2 both have "journal w' = journal w @ (js1 @ js2)
        \<and> same_store w' (replay (js1 @ js2) w) \<and> Q (js1 @ js2) r"
      by simp
    then show ?thesis ..
  qed
qed

lemma emits_ignore_errors:
  assumes "emits Q1 m" and "\<And>js r. Q1 js r \<Longrightarrow> Q js (Inr ())"
  shows "emits Q (io_ignore_errors m)"
  unfolding emits_def
proof (intro allI impI)
  fix w r w' assume a: "io_ignore_errors m w = (r, w')"
  obtain r1 where "m w = (r1, w')" "r = Inr ()"
    using a by (auto simp: io_ignore_errors_def split: prod.splits sum.splits)
  with emitsD [OF assms(1)] assms(2)
  show "\<exists>js. journal w' = journal w @ js \<and> same_store w' (replay js w) \<and> Q js r"
    by blast
qed

text \<open>\<open>only P m\<close>: every effect \<open>m\<close> adds to the journal satisfies \<open>P\<close>.\<close>

definition only :: "(Effect \<Rightarrow> bool) \<Rightarrow> 'a io \<Rightarrow> bool" where
  "only P m = emits (\<lambda>js r. list_all P js) m"

lemma only_return [intro!]: "only P (io_return v)"
  unfolding only_def by (rule emits_return) simp

lemma only_throw [intro!]: "only P (io_throw msg)"
  unfolding only_def by (rule emits_throw) simp

lemma only_db_read [intro!]: "only P (db_read f)"
  unfolding only_def by (rule emits_db_read) simp

lemma only_perform [intro!]: "P e \<Longrightarrow> only P (perform e)"
  unfolding only_def by (rule emits_perform) simp_all

lemma only_fetch_text [intro!]: "P (SiteFetch url) \<Longrightarrow> only P (fetch_text env url)"
  unfolding only_def by (rule emits_fetch_text) simp

lemma only_bind [intro!]: "only P m \<Longrightarrow> (\<And>v. only P (f v)) \<Longrightarrow> only P (io_bind m f)"
  unfolding only_def by (erule emits_bind [where ?Q2.0 = "\<lambda>v js r. list_all P js"]) simp_all

lemma only_ignore_errors [intro!]: "only P m \<Longrightarrow> only P (io_ignore_errors m)"
  unfolding only_def by (erule emits_ignore_errors) simp

lemma onlyD:
  "only P m \<Longrightarrow> m w = (r, w') \<Longrightarrow>
     \<exists>js. journal w' = journal w @ js \<and> same_store w' (replay js w) \<and> list_all P js"
  unfolding only_def by (rule emitsD)

subsection \<open>The effects of finalising and of enriching\<close>

text \<open>
  \<open>finalizing R\<close> holds of a merge write to a Search and of a batch that creates leads
  satisfying \<open>R\<close> and merges into a Search or a Profile; \<open>enriching\<close> of a website fetch and of
  an email written to a stored lead.
\<close>

fun lead_op :: "(LeadPayload \<Rightarrow> bool) \<Rightarrow> BatchOp \<Rightarrow> bool" where
  "lead_op R (NewLead d) = R (lead d)"
| "lead_op R (MergeSearch k patch) = True"
| "lead_op R (MergeProfile k patch) = True"
| "lead_op R (Delete ref) = False"

fun finalizing :: "(LeadPayload \<Rightarrow> bool) \<Rightarrow> Effect \<Rightarrow> bool" where
  "finalizing R (SearchSet k patch) = True"
| "finalizing R (BatchCommit ops) = list_all (lead_op R) ops"
| "finalizing R e = False"

fun enriching :: "Effect \<Rightarrow> bool" where
  "enriching (SiteFetch url) = True"
| "enriching (LeadSetEmail i e) = True"
| "enriching e = False"

lemma lead_op_lead_writes:
  "\<forall>l \<in> set chunk. R l \<Longrightarrow> list_all (lead_op R) (lead_writes env userId searchId chunk)"
  by (induction chunk) (simp_all add: lead_writes_def lead_doc_def)

lemma only_commit_chunks:
  "\<forall>c \<in> set chunks. \<forall>l \<in> set c. R l \<Longrightarrow>
     only (finalizing R) (commit_chunks env userId searchId L cur chunks)"
proof (induction chunks)
  case Nil
  show ?case by auto
next
  case (Cons chunk rest)
  then have "list_all (lead_op R) (lead_writes env userId searchId chunk)"
    by (simp add: lead_op_lead_writes)
  with Cons show ?case by auto
qed

lemma only_writeLeadsAndFinalize:
  assumes "\<forall>l \<in> set L. R l"
  shows "only (finalizing R) (writeLeadsAndFinalize env userId searchId L cur)"
proof (cases "L = []")
  case True
  then show ?thesis by (auto simp: writeLeadsAndFinalize_empty)
next
  case False
  have "\<forall>c \<in> set (chunkArray L 400). \<forall>l \<in> set c. R l"
  proof (intro ballI)
    fix c l assume "c \<in> set (chunkArray L 400)" "l \<in> set c"
    then have "l \<in> set (concat (chunkArray L 400))" by auto
    with assms show "R l" by (simp add: chunkArray_partition)
  qed
  with False show ?thesis
    by (simp add: writeLeadsAndFinalize_chunks only_commit_chunks)
qed

lemma only_weaken: "only P m \<Longrightarrow> (\<And>e. P e \<Longrightarrow> P' e) \<Longrightarrow> only P' m"
  unfolding only_def by (erule emits_weaken) (auto simp: list_all_iff)

lemma only_enrich_one: "only enriching (enrich_one env searchId candidate)"
  unfolding enrich_one_def leads_of_search_site_def
  by (auto split: option.splits list.splits)

lemma only_enrich_each: "only enriching (enrich_each env searchId candidates)"
  by (induction candidates) (auto intro: only_enrich_one)

lemma only_maybeEnrichEmails: "only enriching (maybeEnrichEmails env pl searchId found)"
  by (auto simp: maybeEnrichEmails_def intro: only_enrich_each)

text \<open>The enrichment pass never throws.\<close>

lemma io_ignore_errors_returns: "\<exists>w1. io_ignore_errors m w = (Inr (), w1)"
proof -
  obtain r w1 where "m w = (r, w1)" by (cases "m w")
  then show ?thesis by (cases r) (simp_all add: io_ignore_errors_def)
qed

lemma enrich_each_returns: "\<exists>w'. enrich_each env searchId candidates w = (Inr (), w')"
proof (induction candidates arbitrary: w)
  case Nil
  show ?case by (simp add: io_return_def)
next
  case (Cons c rest)
  obtain w1 where "io_ignore_errors (enrich_one env searchId c) w = (Inr (), w1)"
    using io_ignore_errors_returns by blast
  with Cons [of w1] show ?case by (simp add: io_bind_def)
qed

lemma maybeEnrichEmails_returns: "\<exists>w'. maybeEnrichEmails env pl searchId found w = (Inr (), w')"
  by (simp add: maybeEnrichEmails_def io_return_def enrich_each_returns)

lemma mock_leads_no_email: "\<forall>l \<in> set (buildMockLeads rnd search). email l = None"
  by (auto simp: buildMockLeads_def mockLead_def)

lemma only_run_search_try_demo:
  assumes "\<not> truthy (APIFY_TOKEN env)"
  shows "only (finalizing (\<lambda>l. email l = None)) (run_search_try env user searchId)"
  unfolding run_search_try_def Let_def using assms
  by (auto intro!: only_writeLeadsAndFinalize mock_leads_no_email split: option.splits)

lemma io_catch_cases:
  assumes "io_catch m h w = (r, w')"
  shows "(\<exists>v. m w = (Inr v, w') \<and> r = Inr v)
       \<or> (\<exists>msg w1. m w = (Inl msg, w1) \<and> h msg w1 = (r, w'))"
  using assms by (auto simp: io_catch_def split: prod.splits sum.splits)

lemma emits_catch:
  assumes m: "emits Q1 m" and h: "\<And>msg. emits (Q2 msg) (h msg)"
    and fine: "\<And>js v. Q1 js (Inr v) \<Longrightarrow> Q js (Inr v)"
    and caught: "\<And>js1 msg js2 r. Q1 js1 (Inl msg) \<Longrightarrow> Q2 msg js2 r \<Longrightarrow> Q (js1 @ js2) r"
  shows "emits Q (io_catch m h)"
  unfolding emits_def
proof (intro allI impI)
  fix w r w' assume "io_catch m h w = (r, w')"
  from io_catch_cases [OF this]
  show "\<exists>js. journal w' = journal w @ js \<and> same_store w' (replay js w) \<and> Q js r"
  proof
    assume "\<exists>v. m w = (Inr v, w') \<and> r = Inr v"
    then obtain v where "m w = (Inr v, w')" "r = Inr v" by blast
    with emitsD [OF m] fine show ?thesis by blast
  next
    assume "\<exists>msg w1. m w = (Inl msg, w1) \<and> h msg w1 = (r, w')"
    then obtain msg w1 where 1: "m w = (Inl msg, w1)" and 2: "h msg w1 = (r, w')" by blast
    from emitsD [OF m 1] obtain js1 where
      j1: "journal w1 = journal w @ js1" "same_store w1 (replay js1 w)" "Q1 js1 (Inl msg)"
      by blast
    from emitsD [OF h 2] obtain js2 where
      j2: "journal w' = journal w1 @ js2" "same_store w' (replay js2 w1)" "Q2 msg js2 r"
      by blast
    have "same_store (replay js2 w1) (replay js2 (replay js1 w))"
      using j1(2) by (rule same_store_replay)
    with j2(2) have "same_store w' (replay (js1 @ js2) w)"
      unfolding replay_append by (rule same_store_trans)
    with j1 j2 caught have "journal w' = journal w @ (js1 @ js2)
        \<and> same_store w' (replay (js1 @ js2) w) \<and> Q (js1 @ js2) r"
      by simp
    then show ?thesis ..
  qed
qed

lemma only_catch [intro!]: "only P m \<Longrightarrow> (\<And>msg. only P (h msg)) \<Longrightarrow> only P (io_catch m h)"
  unfolding only_def by (erule emits_catch [where ?Q2.0 = "\<lambda>msg js r. list_all P js"]) simp_all

lemma only_run_apify_search_demo:
  assumes "\<not> truthy (APIFY_TOKEN env)"
  shows "only (finalizing (\<lambda>l. email l = None)) (run_apify_search env user requested_id)"
  unfolding run_apify_search_def
  by (auto intro!: only_run_search_try_demo assms split: option.splits)

text \<open>The leads a list of finalising effects leaves.\<close>

lemma leads_fold_lead_ops:
  "list_all (lead_op R) ops \<Longrightarrow>
     \<exists>new. leads (fold apply_batch_op ops w) = leads w @ new
       \<and> list_all (\<lambda>(i, d). R (lead d)) new"
proof (induction ops arbitrary: w)
  case Nil
  show ?case by simp
next
  case (Cons x ops)
  then have x: "lead_op R x" and rest: "list_all (lead_op R) ops" by simp_all
  from x obtain n1 where n1: "leads (apply_batch_op x w) = leads w @ n1"
    "list_all (\<lambda>(i, d). R (lead d)) n1"
    by (cases x) auto
  from Cons.IH [OF rest, of "apply_batch_op x w"] obtain n2 where
    "leads (fold apply_batch_op ops (apply_batch_op x w)) = leads (apply_batch_op x w) @ n2"
    "list_all (\<lambda>(i, d). R (lead d)) n2"
    by blast
  with n1 have "leads (fold apply_batch_op (x # ops) w) = leads w @ (n1 @ n2)
      \<and> list_all (\<lambda>(i, d). R (lead d)) (n1 @ n2)"
    by simp
  then show ?case ..
qed

lemma leads_replay_finalizing:
  "list_all (finalizing R) js \<Longrightarrow>
     \<exists>new. leads (replay js w) = leads w @ new \<and> list_all (\<lambda>(i, d). R (lead d)) new"
proof (induction js arbitrary: w)
  case Nil
  show ?case by (simp add: replay_def)
next
  case (Cons e js)
  then have e: "finalizing R e" and rest: "list_all (finalizing R) js" by simp_all
  have "\<exists>n1. leads (apply_effect e w) = leads w @ n1 \<and> list_all (\<lambda>(i, d). R (lead d)) n1"
  proof (cases e)
    case (BatchCommit ops)
    with e show ?thesis by (simp add: leads_fold_lead_ops)
  qed (use e in simp_all)
  then obtain n1 where n1: "leads (apply_effect e w) = leads w @ n1"
    "list_all (\<lambda>(i, d). R (lead d)) n1"
    by blast
  from Cons.IH [OF rest, of "apply_effect e w"] obtain n2 where
    "leads (replay js (apply_effect e w)) = leads (apply_effect e w) @ n2"
    "list_all (\<lambda>(i, d). R (lead d)) n2"
    by blast
  with n1 have "leads (replay (e # js) w) = leads w @ (n1 @ n2)
      \<and> list_all (\<lambda>(i, d). R (lead d)) (n1 @ n2)"
    by (simp add: replay_def)
  then show ?case ..
qed

lemma finalizing_not_enriching: "finalizing R e \<Longrightarrow> \<not> enriching e"
  by (cases e) simp_all

subsection \<open>Runs without a failing call\<close>

definition did :: "Effect \<Rightarrow> World \<Rightarrow> World" where
  "did e w = (apply_effect e w)\<lparr>journal := journal w @ [e]\<rparr>"

lemma perform_did: "faults w = [] \<Longrightarrow> perform e w = (Inr (), did e w)"
  by (simp add: perform_ok did_def)

lemma did_frame [simp]:
  "faults (did e w) = faults w" "journal (did e w) = journal w @ [e]"
  by (simp_all add: did_def)

lemma did_SearchSet [simp]:
  "searches (did (SearchSet k patch) w) =
     put_search k (merge_search patch (map_of (searches w) k)) (searches w)"
  "profiles (did (SearchSet k patch) w) = profiles w"
  "leads (did (SearchSet k patch) w) = leads w"
  "subscriptions (did (SearchSet k patch) w) = subscriptions w"
  "identities (did (SearchSet k patch) w) = identities w"
  by (simp_all add: did_def)

lemma writeLeadsAndFinalize_runs:
  assumes "faults w = []"
  obtains w' where "writeLeadsAndFinalize env userId searchId L cur w = (Inr (), w')"
    "faults w' = []"
    "searches w' = put_search searchId
        (merge_search (completed_patch env (length L)) (map_of (searches w) searchId)) (searches w)"
    "profiles w' = (if L = [] then profiles w else (profiles w)(userId \<mapsto>
          merge_profile (usage_patch env (cur + int (length L))) (profiles w userId)))"
    "subscriptions w' = subscriptions w" "identities w' = identities w"
    "map snd (leads w') = map snd (leads w) @ map (lead_doc env userId searchId) L"
    "\<exists>js. journal w' = journal w @ js \<and> list_all (finalizing (\<lambda>l. True)) js"
proof -
  obtain r w' where run: "writeLeadsAndFinalize env userId searchId L cur w = (r, w')"
    by (cases "writeLeadsAndFinalize env userId searchId L cur w")
  from writeLeadsAndFinalize_no_faults [OF run assms] have r: "r = Inr ()" and f: "faults w' = []"
    by simp_all
  note fin = writeLeadsAndFinalize_done [OF run [unfolded r]]
  have "only (finalizing (\<lambda>l. True)) (writeLeadsAndFinalize env userId searchId L cur)"
    by (rule only_writeLeadsAndFinalize) simp
  from onlyD [OF this run]
  have j: "\<exists>js. journal w' = journal w @ js \<and> list_all (finalizing (\<lambda>l. True)) js" by blast
  from that [OF run [unfolded r] f _ _ _ _ _ j] fin show thesis by blast
qed

lemma run_search_try_guard:
  assumes "faults w = []" "map_of (searches w) searchId = Some search"
    "user_id search = Some (uid user)" "profiles w (uid user) = Some profile"
  shows "run_search_try env user searchId w =
     (if is_suspended profile = Some True
         then (Inr (SendError 403 ''Account suspended''),
               did (SearchSet searchId (failed_patch env ''Account suspended'')) w)
         else if leadsLimit_of profile \<le> leadsUsed_of profile
         then (Inr (SendError 429 ''Leads quota exceeded''),
               did (SearchSet searchId (failed_patch env ''Leads quota exceeded'')) w)
         else (if \<not> truthy (APIFY_TOKEN env)
               then io_bind
                      (writeLeadsAndFinalize env (uid user) searchId
                         (buildMockLeads (math_random env) search) (leadsUsed_of profile))
                      (\<lambda>_. io_return (RunResponse Demo
                         (length (buildMockLeads (math_random env) search))))
               else live_search env (uid user) searchId search (leadsUsed_of profile)
                      (plan_of profile))
              (did (SearchSet searchId (running_patch env)) w))"
  using assms
  by (simp add: run_search_try_def io_bind_def db_read_ok perform_did Let_def io_return_def)

lemma only_live_search:
  "only (\<lambda>e. finalizing (\<lambda>l. True) e \<or> enriching e)
     (live_search env userId searchId search leadsUsed pl)"
proof -
  have fin: "only (\<lambda>e. finalizing (\<lambda>l. True) e \<or> enriching e)
      (writeLeadsAndFinalize env userId searchId found leadsUsed)" for found
    by (rule only_weaken [OF only_writeLeadsAndFinalize [where R = "\<lambda>l. True"]]) simp_all
  have enr: "only (\<lambda>e. finalizing (\<lambda>l. True) e \<or> enriching e)
      (maybeEnrichEmails env pl searchId found)" for found
    by (rule only_weaken [OF only_maybeEnrichEmails]) simp
  show ?thesis
    unfolding live_search_def
    by (auto intro!: fin enr split: RunOutcome.splits DatasetOutcome.splits sum.splits)
qed

lemma only_run_apify_search:
  "only (\<lambda>e. finalizing (\<lambda>l. True) e \<or> enriching e)
     (run_apify_search env user requested_id)"
proof -
  have fin: "only (\<lambda>e. finalizing (\<lambda>l. True) e \<or> enriching e)
      (writeLeadsAndFinalize env userId searchId found leadsUsed)"
    for found userId searchId leadsUsed
    by (rule only_weaken [OF only_writeLeadsAndFinalize [where R = "\<lambda>l. True"]]) simp_all
  show ?thesis
    unfolding run_apify_search_def run_search_try_def Let_def
    by (auto intro!: fin only_live_search split: option.splits)
qed

lemma io_catch_ok: "m w = (Inr v, w') \<Longrightarrow> io_catch m h w = (Inr v, w')"
  by (simp add: io_catch_def)

lemma io_catch_same: "m w = m' w1 \<Longrightarrow> io_catch m h w = io_catch m' h w1"
  by (simp add: io_catch_def)

definition proceed :: "Env \<Rightarrow> DecodedUser \<Rightarrow> string \<Rightarrow> SearchData \<Rightarrow> ProfileData \<Rightarrow> Response io" where
  "proceed env user searchId search profile =
     io_catch
       (if \<not> truthy (APIFY_TOKEN env)
        then io_bind
               (writeLeadsAndFinalize env (uid user) searchId
                  (buildMockLeads (math_random env) search) (leadsUsed_of profile))
               (\<lambda>_. io_return (RunResponse Demo
                  (length (buildMockLeads (math_random env) search))))
        else live_search env (uid user) searchId search (leadsUsed_of profile) (plan_of profile))
       (\<lambda>message.
          io_bind (io_ignore_errors (perform (SearchSet searchId (failed_patch env message))))
            (\<lambda>_. io_return (SendError 500 message)))"

lemma run_apify_search_guard:
  assumes "faults w = []" "searchId \<noteq> []" "map_of (searches w) searchId = Some search"
    "user_id search = Some (uid user)" "profiles w (uid user) = Some profile"
  shows "run_apify_search env user (Some searchId) w =
     (if is_suspended profile = Some True
      then (Inr (SendError 403 ''Account suspended''),
            did (SearchSet searchId (failed_patch env ''Account suspended'')) w)
      else if leadsLimit_of profile \<le> leadsUsed_of profile
      then (Inr (SendError 429 ''Leads quota exceeded''),
            did (SearchSet searchId (failed_patch env ''Leads quota exceeded'')) w)
      else proceed env user searchId search profile
             (did (SearchSet searchId (running_patch env)) w))"
proof -
  note guard = run_search_try_guard [OF assms(1,3,4,5), of env]
  show ?thesis
  proof (cases "is_suspended profile = Some True \<or> leadsLimit_of profile \<le> leadsUsed_of profile")
    case True
    with guard assms(2) show ?thesis
      by (auto simp: run_apify_search_def io_catch_def)
  next
    case False
    with guard assms(2) show ?thesis
      unfolding run_apify_search_def proceed_def
      by (auto intro!: io_catch_same)
  qed
qed

lemma only_proceed:
  "only (\<lambda>e. finalizing (\<lambda>l. True) e \<or> enriching e) (proceed env user searchId search profile)"
proof -
  have fin: "only (\<lambda>e. finalizing (\<lambda>l. True) e \<or> enriching e)
      (writeLeadsAndFinalize env userId sid found leadsUsed)"
    for found userId sid leadsUsed
    by (rule only_weaken [OF only_writeLeadsAndFinalize [where R = "\<lambda>l. True"]]) simp_all
  show ?thesis
    unfolding proceed_def
    by (auto intro!: fin only_live_search)
qed

lemma status_failed_patch:
  "status (merge_search (failed_patch env msg) old) = Some Failed
   \<and> error_message (merge_search (failed_patch env msg) old) = Some msg"
  by (simp add: merge_search_def failed_patch_def)

text \<open>
  Claim C2. On a Search the caller owns, with its Profile stored and no call to the store
  failing: a suspended Profile gets the Search written to failed with message
  \<^verbatim>\<open>Account suspended\<close> and the answer 403 with that message; otherwise a Profile whose
  usage has reached its limit gets the Search written to failed with
  \<^verbatim>\<open>Leads quota exceeded\<close> and the answer 429. Suspension is tested first (the first part
  holds whatever the usage). In both rejections that one write is all the request does, so
  the profiles, and with them leads_used, are unchanged. Otherwise the run proceeds: its
  first write sets the Search to running.
\<close>

theorem run_apify_search_guard_rejections:
  assumes "faults w = []" and "searchId \<noteq> []"
    and "map_of (searches w) searchId = Some search" and "user_id search = Some (uid user)"
    and "profiles w (uid user) = Some profile"
    and "run_apify_search env user (Some searchId) w = (r, w')"
  shows "(is_suspended profile = Some True \<longrightarrow>
            r = Inr (SendError 403 ''Account suspended'')
          \<and> journal w' = journal w @ [SearchSet searchId (failed_patch env ''Account suspended'')]
          \<and> (\<exists>d. map_of (searches w') searchId = Some d \<and> status d = Some Failed
                \<and> error_message d = Some ''Account suspended'')
          \<and> profiles w' = profiles w \<and> leads w' = leads w)
     \<and> (is_suspended profile \<noteq> Some True \<and> leadsLimit_of profile \<le> leadsUsed_of profile \<longrightarrow>
            r = Inr (SendError 429 ''Leads quota exceeded'')
          \<and> journal w' = journal w @ [SearchSet searchId (failed_patch env ''Leads quota exceeded'')]
          \<and> (\<exists>d. map_of (searches w') searchId = Some d \<and> status d = Some Failed
                \<and> error_message d = Some ''Leads quota exceeded'')
          \<and> profiles w' = profiles w \<and> leads w' = leads w)
     \<and> (is_suspended profile \<noteq> Some True \<and> leadsUsed_of profile < leadsLimit_of profile \<longrightarrow>
            (\<exists>js. journal w' = journal w @ SearchSet searchId (running_patch env) # js))"
proof (intro conjI impI)
  note guard = run_apify_search_guard [OF assms(1-5), of env]
  {
    assume "is_suspended profile = Some True"
    with guard assms(6)
    have r: "r = Inr (SendError 403 ''Account suspended'')"
      and w': "w' = did (SearchSet searchId (failed_patch env ''Account suspended'')) w"
      by simp_all
    show "r = Inr (SendError 403 ''Account suspended'')" by (rule r)
    show "journal w' = journal w @ [SearchSet searchId (failed_patch env ''Account suspended'')]"
      by (simp add: w')
    show "\<exists>d. map_of (searches w') searchId = Some d \<and> status d = Some Failed
                \<and> error_message d = Some ''Account suspended''"
      by (simp add: w' status_failed_patch)
    show "profiles w' = profiles w" by (simp add: w')
    show "leads w' = leads w" by (simp add: w')
  }
  {
    assume "is_suspended profile \<noteq> Some True \<and> leadsLimit_of profile \<le> leadsUsed_of profile"
    with guard assms(6)
    have r: "r = Inr (SendError 429 ''Leads quota exceeded'')"
      and w': "w' = did (SearchSet searchId (failed_patch env ''Leads quota exceeded'')) w"
      by simp_all
    show "r = Inr (SendError 429 ''Leads quota exceeded'')" by (rule r)
    show "journal w' = journal w @ [SearchSet searchId (failed_patch env ''Leads quota exceeded'')]"
      by (simp add: w')
    show "\<exists>d. map_of (searches w') searchId = Some d \<and> status d = Some Failed
                \<and> error_message d = Some ''Leads quota exceeded''"
      by (simp add: w' status_failed_patch)
    show "profiles w' = profiles w" by (simp add: w')
    show "leads w' = leads w" by (simp add: w')
  }
  {
    assume "is_suspended profile \<noteq> Some True \<and> leadsUsed_of profile < leadsLimit_of profile"
    with guard assms(6)
    have "proceed env user searchId search profile
        (did (SearchSet searchId (running_patch env)) w) = (r, w')"
      by simp
    from onlyD [OF only_proceed this]
    obtain js where "journal w' = journal (did (SearchSet searchId (running_patch env)) w) @ js"
      by blast
    then have "journal w' = journal w @ SearchSet searchId (running_patch env) # js" by simp
    then show "\<exists>js. journal w' = journal w @ SearchSet searchId (running_patch env) # js" ..
  }
qed

definition user_u1 :: DecodedUser where
  "user_u1 = \<lparr> uid = ''u1'', user_email = Some ''u1@example.com'' \<rparr>"

definition world_with :: "ProfileData \<Rightarrow> World" where
  "world_with profile = world_u1\<lparr>profiles := [''u1'' \<mapsto> profile]\<rparr>"

lemma world_with_facts:
  "faults (world_with p) = []" "map_of (searches (world_with p)) ''s1'' = Some search_s1"
  "user_id search_s1 = Some (uid user_u1)" "profiles (world_with p) (uid user_u1) = Some p"
  "journal (world_with p) = []" "leads (world_with p) = []"
  by (simp_all add: world_with_def world_u1_def search_s1_def user_u1_def)

theorem run_apify_search_guard_rejections_witness:
  "fst (run_apify_search env_demo user_u1 (Some ''s1'')
          (world_with (profile_u1\<lparr>is_suspended := Some True, leads_used := Some 2000\<rparr>)))
     = Inr (SendError 403 ''Account suspended'')
   \<and> profiles (snd (run_apify_search env_demo user_u1 (Some ''s1'')
          (world_with (profile_u1\<lparr>is_suspended := Some True, leads_used := Some 2000\<rparr>))))
     = [''u1'' \<mapsto> profile_u1\<lparr>is_suspended := Some True, leads_used := Some 2000\<rparr>]
   \<and> fst (run_apify_search env_demo user_u1 (Some ''s1'')
          (world_with (profile_u1\<lparr>leads_used := Some 2000\<rparr>)))
     = Inr (SendError 429 ''Leads quota exceeded'')
   \<and> journal (snd (run_apify_search env_demo user_u1 (Some ''s1'')
          (world_with (profile_u1\<lparr>leads_used := Some 2000\<rparr>))))
     = [SearchSet ''s1'' (failed_patch env_demo ''Leads quota exceeded'')]
   \<and> (\<exists>js. journal (snd (run_apify_search env_demo user_u1 (Some ''s1'') (world_with profile_u1)))
         = SearchSet ''s1'' (running_patch env_demo) # js)"
proof -
  let ?suspended = "profile_u1\<lparr>is_suspended := Some True, leads_used := Some 2000\<rparr>"
  let ?full = "profile_u1\<lparr>leads_used := Some 2000\<rparr>"
  have name: "''s1'' \<noteq> []" by simp
  note a = run_apify_search_guard_rejections
    [OF world_with_facts(1) name world_with_facts(2,3,4) prod.collapse [symmetric],
      of ?suspended env_demo]
  note b = run_apify_search_guard_rejections
    [OF world_with_facts(1) name world_with_facts(2,3,4) prod.collapse [symmetric],
      of ?full env_demo]
  note c = run_apify_search_guard_rejections
    [OF world_with_facts(1) name world_with_facts(2,3,4) prod.collapse [symmetric],
      of profile_u1 env_demo]
  have 1: "is_suspended ?suspended = Some True" by simp
  have 2: "is_suspended ?full \<noteq> Some True \<and> leadsLimit_of ?full \<le> leadsUsed_of ?full"
    by (simp add: profile_u1_def leadsLimit_of_def leadsUsed_of_def)
  have 3: "is_suspended profile_u1 \<noteq> Some True
      \<and> leadsUsed_of profile_u1 < leadsLimit_of profile_u1"
    by (simp add: profile_u1_def leadsLimit_of_def leadsUsed_of_def)
  from a 1 have A: "fst (run_apify_search env_demo user_u1 (Some ''s1'') (world_with ?suspended))
       = Inr (SendError 403 ''Account suspended'')"
    "profiles (snd (run_apify_search env_demo user_u1 (Some ''s1'') (world_with ?suspended)))
       = profiles (world_with ?suspended)"
    by blast+
  from b 2 have B: "fst (run_apify_search env_demo user_u1 (Some ''s1'') (world_with ?full))
       = Inr (SendError 429 ''Leads quota exceeded'')"
    "journal (snd (run_apify_search env_demo user_u1 (Some ''s1'') (world_with ?full)))
       = journal (world_with ?full) @ [SearchSet ''s1'' (failed_patch env_demo ''Leads quota exceeded'')]"
    by blast+
  from c 3 have C: "\<exists>js. journal (snd (run_apify_search env_demo user_u1 (Some ''s1'')
        (world_with profile_u1)))
       = journal (world_with profile_u1) @ SearchSet ''s1'' (running_patch env_demo) # js"
    by blast
  from A B C show ?thesis
    by (simp add: world_with_facts(5)) (simp add: world_with_def)
qed

subsection \<open>What enrichment leaves alone\<close>

definition without_email :: "LeadDoc \<Rightarrow> LeadDoc" where
  "without_email d = d\<lparr>lead := (lead d)\<lparr>email := None\<rparr>\<rparr>"

text \<open>The stored leads with their emails blanked.\<close>

definition stripped :: "(nat \<times> LeadDoc) list \<Rightarrow> LeadDoc list" where
  "stripped ls = map (\<lambda>(i, d). without_email d) ls"

lemma without_email_set_lead_email [simp]:
  "without_email (set_lead_email e d) = without_email d"
  by (simp add: without_email_def set_lead_email_def)

lemma stripped_set_email [simp]:
  "stripped (map (\<lambda>(j, d). if j = i then (j, set_lead_email a d) else (j, d)) ls) = stripped ls"
  by (induction ls) (auto simp: stripped_def)

lemma ids_set_email [simp]:
  "map fst (map (\<lambda>(j, d). if j = i then (j, set_lead_email a d) else (j, d)) ls) = map fst ls"
  by (induction ls) auto

lemma stripped_append [simp]: "stripped (xs @ ys) = stripped xs @ stripped ys"
  by (simp add: stripped_def)

lemma length_stripped [simp]: "length (stripped ls) = length ls"
  by (simp add: stripped_def)

lemma apply_enriching:
  "enriching e \<Longrightarrow>
     profiles (apply_effect e w) = profiles w \<and> searches (apply_effect e w) = searches w
     \<and> subscriptions (apply_effect e w) = subscriptions w
     \<and> identities (apply_effect e w) = identities w
     \<and> map fst (leads (apply_effect e w)) = map fst (leads w)
     \<and> stripped (leads (apply_effect e w)) = stripped (leads w)"
  by (cases e) (simp_all del: map_map add: ids_set_email)

lemma replay_enriching:
  "list_all enriching js \<Longrightarrow>
     profiles (replay js w) = profiles w \<and> searches (replay js w) = searches w
     \<and> subscriptions (replay js w) = subscriptions w
     \<and> identities (replay js w) = identities w
     \<and> map fst (leads (replay js w)) = map fst (leads w)
     \<and> stripped (leads (replay js w)) = stripped (leads w)"
proof (induction js arbitrary: w)
  case Nil
  show ?case by (simp add: replay_def)
next
  case (Cons e js)
  then have e: "enriching e" and js: "list_all enriching js" by simp_all
  have "replay (e # js) w = replay js (apply_effect e w)" by (simp add: replay_def)
  with Cons.IH [OF js, of "apply_effect e w"] apply_enriching [OF e, of w]
  show ?case by simp
qed

lemma maybeEnrichEmails_frame:
  assumes "maybeEnrichEmails env pl searchId found w = (r, w')"
  shows "r = Inr () \<and> profiles w' = profiles w \<and> searches w' = searches w
     \<and> subscriptions w' = subscriptions w \<and> identities w' = identities w
     \<and> map fst (leads w') = map fst (leads w)
     \<and> stripped (leads w') = stripped (leads w)
     \<and> (\<exists>js. journal w' = journal w @ js \<and> list_all enriching js)"
proof -
  from maybeEnrichEmails_returns [of env pl searchId found w] assms have r: "r = Inr ()"
    by auto
  from onlyD [OF only_maybeEnrichEmails assms] obtain js where
    js: "journal w' = journal w @ js" "same_store w' (replay js w)" "list_all enriching js"
    by blast
  from replay_enriching [OF js(3), of w] js(2) r js(1,3) show ?thesis
    unfolding same_store_def by auto
qed

lemma stripped_snd: "stripped ls = map without_email (map snd ls)"
  by (simp add: stripped_def split_def)

text \<open>The array test on the dataset and the normaliser, which never throws.\<close>

definition found_in :: "jsval \<Rightarrow> LeadPayload list" where
  "found_in items = (case items of JArr xs \<Rightarrow> map normalized xs | _ \<Rightarrow> [])"

lemma dataset_leads:
  "(case items of JArr xs \<Rightarrow> normalizeApifyLeads xs | _ \<Rightarrow> Inr []) = Inr (found_in items)"
  by (cases items) (simp_all add: found_in_def normalizeApifyLeads_total)

text \<open>Finalising and enriching, from a state with no fault ahead.\<close>

lemma finalize_then_enrich:
  assumes "faults w = []"
  obtains w' where
    "io_bind (writeLeadsAndFinalize env userId searchId found leadsUsed)
       (\<lambda>_. io_bind (maybeEnrichEmails env pl searchId found)
       (\<lambda>_. io_return (RunResponse Live (length found)))) w
     = (Inr (RunResponse Live (length found)), w')"
    "searches w' = put_search searchId
        (merge_search (completed_patch env (length found)) (map_of (searches w) searchId))
        (searches w)"
    "profiles w' = (if found = [] then profiles w else (profiles w)(userId \<mapsto>
          merge_profile (usage_patch env (leadsUsed + int (length found))) (profiles w userId)))"
    "stripped (leads w') =
       stripped (leads w) @ map without_email (map (lead_doc env userId searchId) found)"
proof -
  from writeLeadsAndFinalize_runs [OF assms, of env userId searchId found leadsUsed]
  obtain w2 where w2: "writeLeadsAndFinalize env userId searchId found leadsUsed w = (Inr (), w2)"
    "searches w2 = put_search searchId
        (merge_search (completed_patch env (length found)) (map_of (searches w) searchId))
        (searches w)"
    "profiles w2 = (if found = [] then profiles w else (profiles w)(userId \<mapsto>
          merge_profile (usage_patch env (leadsUsed + int (length found))) (profiles w userId)))"
    "map snd (leads w2) = map snd (leads w) @ map (lead_doc env userId searchId) found"
    by metis
  obtain r3 w3 where w3: "maybeEnrichEmails env pl searchId found w2 = (r3, w3)"
    by (cases "maybeEnrichEmails env pl searchId found w2")
  note frame = maybeEnrichEmails_frame [OF w3]
  have run: "io_bind (writeLeadsAndFinalize env userId searchId found leadsUsed)
       (\<lambda>_. io_bind (maybeEnrichEmails env pl searchId found)
       (\<lambda>_. io_return (RunResponse Live (length found)))) w
     = (Inr (RunResponse Live (length found)), w3)"
    using w2(1) w3 frame by (simp add: io_bind_def io_return_def)
  have "stripped (leads w3) = stripped (leads w2)" using frame by simp
  also have "\<dots> = stripped (leads w) @ map without_email (map (lead_doc env userId searchId) found)"
    by (simp add: stripped_snd w2(4))
  finally have leads3: "stripped (leads w3) =
       stripped (leads w) @ map without_email (map (lead_doc env userId searchId) found)" .
  from frame w2(2,3) have "searches w3 = put_search searchId
        (merge_search (completed_patch env (length found)) (map_of (searches w) searchId))
        (searches w)"
    "profiles w3 = (if found = [] then profiles w else (profiles w)(userId \<mapsto>
          merge_profile (usage_patch env (leadsUsed + int (length found))) (profiles w userId)))"
    by simp_all
  with that [OF run _ _ leads3] show thesis by blast
qed

text \<open>
  A live run from a state with no fault ahead, once the provider has started a run with a
  dataset and the dataset request has returned JSON.
\<close>

lemma live_search_dataset:
  assumes "faults w = []"
    and "actor_run env
           (template (keyword search) @ '' in '' @ template (city search) @ '', ''
              @ template (country search))
           (max_results search) = RunStarted run_id dataset_id"
    and "truthy dataset_id"
    and "dataset_items env (tested dataset_id) = DatasetJson items"
  obtains w' where
    "live_search env userId searchId search leadsUsed pl w
       = (Inr (RunResponse Live (length (found_in items))), w')"
    "\<exists>d. map_of (searches w') searchId = Some d \<and> status d = Some Completed
         \<and> total_results d = Some (int (length (found_in items)))"
    "profiles w' = (if found_in items = [] then profiles w else (profiles w)(userId \<mapsto>
          merge_profile (usage_patch env (leadsUsed + int (length (found_in items))))
            (profiles w userId)))"
    "stripped (leads w') =
       stripped (leads w) @ map without_email (map (lead_doc env userId searchId) (found_in items))"
proof -
  let ?first = "if truthy run_id
      then perform (SearchSet searchId [ApifyRunId (tested run_id), UpdatedAt (now env)])
      else io_return ()"
  let ?w1 = "if truthy run_id
      then did (SearchSet searchId [ApifyRunId (tested run_id), UpdatedAt (now env)]) w
      else w"
  have first: "?first w = (Inr (), ?w1)"
    using assms(1) by (simp add: perform_did io_return_def)
  have w1: "faults ?w1 = []" "profiles ?w1 = profiles w" "leads ?w1 = leads w"
    using assms(1) by simp_all
  from finalize_then_enrich [OF w1(1), of env userId searchId "found_in items" leadsUsed pl]
  obtain w' where w': "io_bind (writeLeadsAndFinalize env userId searchId (found_in items) leadsUsed)
       (\<lambda>_. io_bind (maybeEnrichEmails env pl searchId (found_in items))
       (\<lambda>_. io_return (RunResponse Live (length (found_in items))))) ?w1
     = (Inr (RunResponse Live (length (found_in items))), w')"
    "searches w' = put_search searchId
        (merge_search (completed_patch env (length (found_in items))) (map_of (searches ?w1) searchId))
        (searches ?w1)"
    "profiles w' = (if found_in items = [] then profiles ?w1 else (profiles ?w1)(userId \<mapsto>
          merge_profile (usage_patch env (leadsUsed + int (length (found_in items))))
            (profiles ?w1 userId)))"
    "stripped (leads w') =
       stripped (leads ?w1) @ map without_email (map (lead_doc env userId searchId) (found_in items))"
    by metis
  have run: "live_search env userId searchId search leadsUsed pl w
       = (Inr (RunResponse Live (length (found_in items))), w')"
    unfolding live_search_def assms(2) RunOutcome.case
    using first w'(1) assms(3,4)
    by (simp add: io_bind_def dataset_leads)
  have "map_of (searches w') searchId = Some
      (merge_search (completed_patch env (length (found_in items))) (map_of (searches ?w1) searchId))"
    by (simp add: w'(2))
  with merge_completed have s: "\<exists>d. map_of (searches w') searchId = Some d
      \<and> status d = Some Completed \<and> total_results d = Some (int (length (found_in items)))"
    by blast
  from that [OF run s] w'(3,4) w1(2,3) show thesis by simp
qed

lemma io_catch_thrown:
  "m w = (Inl msg, w1) \<Longrightarrow> io_catch m h w = h msg w1"
  by (simp add: io_catch_def)

lemma caught_is_500:
  "io_bind (io_ignore_errors (perform (SearchSet searchId (failed_patch env message))))
     (\<lambda>_. io_return (SendError 500 message)) w = (r, w') \<Longrightarrow> r = Inr (SendError 500 message)"
  using io_ignore_errors_returns
    [of "perform (SearchSet searchId (failed_patch env message))" w]
  by (auto simp: io_bind_def io_return_def)

lemma live_search_success:
  assumes "faults w = []"
    and "live_search env userId searchId search leadsUsed pl w = (Inr (RunResponse mode n), w')"
  shows "profiles w' = (if n = 0 then profiles w else (profiles w)(userId \<mapsto>
          merge_profile (usage_patch env (leadsUsed + int n)) (profiles w userId)))
     \<and> length (leads w') = length (leads w) + n \<and> mode = Live"
proof (cases "actor_run env
           (template (keyword search) @ '' in '' @ template (city search) @ '', ''
              @ template (country search))
           (max_results search)")
  case (RunFails msg)
  with assms(2) show ?thesis by (simp add: live_search_def io_throw_def)
next
  case (RunNotOk code details)
  with assms(2) show ?thesis by (simp add: live_search_def io_throw_def)
next
  case (RunStarted run_id dataset_id)
  let ?w1 = "if truthy run_id
      then did (SearchSet searchId [ApifyRunId (tested run_id), UpdatedAt (now env)]) w
      else w"
  have w1: "faults ?w1 = []" "profiles ?w1 = profiles w" "leads ?w1 = leads w"
    using assms(1) by simp_all
  show ?thesis
  proof (cases "truthy dataset_id")
    case False
    with assms RunStarted
    have "n = 0" "mode = Live"
      "w' = did (SearchSet searchId [Status Completed, TotalResults 0, UpdatedAt (now env)]) ?w1"
      by (auto simp: live_search_def io_bind_def perform_did io_return_def split: if_splits)
    with w1 show ?thesis by simp
  next
    case True
    show ?thesis
    proof (cases "dataset_items env (tested dataset_id)")
      case (DatasetFails msg)
      with assms RunStarted True show ?thesis
        by (auto simp: live_search_def io_bind_def perform_did io_return_def io_throw_def
            split: if_splits)
    next
      case (DatasetJson items)
      from live_search_dataset [OF assms(1) RunStarted True DatasetJson,
          of userId searchId leadsUsed pl]
      obtain v where v: "live_search env userId searchId search leadsUsed pl w
            = (Inr (RunResponse Live (length (found_in items))), v)"
        "profiles v = (if found_in items = [] then profiles w else (profiles w)(userId \<mapsto>
          merge_profile (usage_patch env (leadsUsed + int (length (found_in items))))
            (profiles w userId)))"
        "stripped (leads v) = stripped (leads w)
           @ map without_email (map (lead_doc env userId searchId) (found_in items))"
        by metis
      from v(1) assms(2) have eq: "mode = Live" "n = length (found_in items)" "w' = v"
        by simp_all
      have "length (stripped (leads v)) = length (leads w) + length (found_in items)"
        unfolding v(3) by simp
      then have "length (leads v) = length (leads w) + length (found_in items)" by simp
      with v(2) eq show ?thesis by simp
    qed
  qed
qed

lemma proceed_success:
  assumes "faults w = []"
    and "proceed env user searchId search profile w = (Inr (RunResponse mode n), w')"
  shows "profiles w' = (if n = 0 then profiles w else (profiles w)(uid user \<mapsto>
          merge_profile (usage_patch env (leadsUsed_of profile + int n)) (profiles w (uid user))))
     \<and> length (leads w') = length (leads w) + n
     \<and> (mode = Demo) = (\<not> truthy (APIFY_TOKEN env))"
proof (cases "truthy (APIFY_TOKEN env)")
  case False
  let ?mock = "buildMockLeads (math_random env) search"
  from writeLeadsAndFinalize_runs [OF assms(1), of env "uid user" searchId ?mock
      "leadsUsed_of profile"]
  obtain v where v: "writeLeadsAndFinalize env (uid user) searchId ?mock (leadsUsed_of profile) w
        = (Inr (), v)"
    "profiles v = (if ?mock = [] then profiles w else (profiles w)(uid user \<mapsto>
          merge_profile (usage_patch env (leadsUsed_of profile + int (length ?mock)))
            (profiles w (uid user))))"
    "map snd (leads v) = map snd (leads w) @ map (lead_doc env (uid user) searchId) ?mock"
    by metis
  from v(1) False have "proceed env user searchId search profile w
      = (Inr (RunResponse Demo (length ?mock)), v)"
    by (simp add: proceed_def io_catch_def io_bind_def io_return_def)
  with assms(2) have eq: "mode = Demo" "n = length ?mock" "w' = v" by simp_all
  from v(3) have "length (map snd (leads v)) = length (leads w) + length ?mock" by simp
  then have "length (leads v) = length (leads w) + length ?mock" by simp
  with v(2) eq False show ?thesis by simp
next
  case True
  let ?live = "live_search env (uid user) searchId search (leadsUsed_of profile) (plan_of profile)"
  obtain r1 w1 where live: "?live w = (r1, w1)" by (cases "?live w")
  show ?thesis
  proof (cases r1)
    case (Inl msg)
    with live True assms(2) have
      "io_bind (io_ignore_errors (perform (SearchSet searchId (failed_patch env msg))))
         (\<lambda>_. io_return (SendError 500 msg)) w1 = (Inr (RunResponse mode n), w')"
      by (simp add: proceed_def io_catch_def)
    from caught_is_500 [OF this] show ?thesis by simp
  next
    case (Inr resp)
    with live True assms(2) have "resp = RunResponse mode n" "w1 = w'"
      by (simp_all add: proceed_def io_catch_def)
    with live Inr have "?live w = (Inr (RunResponse mode n), w')" by simp
    from live_search_success [OF assms(1) this] True show ?thesis by simp
  qed
qed

lemma proceed_demo_runs:
  assumes "faults w = []" "\<not> truthy (APIFY_TOKEN env)"
  obtains w' where "proceed env user searchId search profile w
      = (Inr (RunResponse Demo (length (buildMockLeads (math_random env) search))), w')"
proof -
  let ?mock = "buildMockLeads (math_random env) search"
  from writeLeadsAndFinalize_runs [OF assms(1), of env "uid user" searchId ?mock
      "leadsUsed_of profile"]
  obtain v where "writeLeadsAndFinalize env (uid user) searchId ?mock (leadsUsed_of profile) w
        = (Inr (), v)"
    by metis
  with assms(2) have "proceed env user searchId search profile w
      = (Inr (RunResponse Demo (length ?mock)), v)"
    by (simp add: proceed_def io_catch_def io_bind_def io_return_def)
  with that show thesis .
qed

lemma run_apify_search_demo_runs:
  assumes "faults w = []" "searchId \<noteq> []" "map_of (searches w) searchId = Some search"
    "user_id search = Some (uid user)" "profiles w (uid user) = Some profile"
    "is_suspended profile \<noteq> Some True" "leadsUsed_of profile < leadsLimit_of profile"
    "\<not> truthy (APIFY_TOKEN env)"
  shows "fst (run_apify_search env user (Some searchId) w)
     = Inr (RunResponse Demo (length (buildMockLeads (math_random env) search)))"
proof -
  have "faults (did (SearchSet searchId (running_patch env)) w) = []"
    using assms(1) by simp
  from proceed_demo_runs [OF this assms(8), of user searchId search profile]
  obtain w' where "proceed env user searchId search profile
      (did (SearchSet searchId (running_patch env)) w)
      = (Inr (RunResponse Demo (length (buildMockLeads (math_random env) search))), w')"
    by blast
  with run_apify_search_guard [OF assms(1-5), of env] assms(6,7) show ?thesis by simp
qed

lemma merge_usage_limit:
  "leadsUsed_of (merge_profile (usage_patch env n) (Some p)) = n
   \<and> leadsLimit_of (merge_profile (usage_patch env n) (Some p)) = leadsLimit_of p"
  by (simp add: merge_profile_def usage_patch_def leadsUsed_of_def leadsLimit_of_def)

text \<open>
  Claim C8. The quota test looks at the usage stored before the run, and the increment is
  not capped. On a Search the caller owns, with a Profile that is not suspended and whose
  usage is below its limit, and with no call to the store failing: a run that answers with
  success and \<open>n\<close> leads has stored \<open>n\<close> more leads and leaves leads_used at the old
  usage plus \<open>n\<close>, the limit unchanged; so from usage \<open>limit - 1\<close> a run with two leads or
  more ends above the limit.
\<close>

theorem usage_increment_not_capped:
  assumes "faults w = []" and "searchId \<noteq> []"
    and "map_of (searches w) searchId = Some search" and "user_id search = Some (uid user)"
    and "profiles w (uid user) = Some profile"
    and "is_suspended profile \<noteq> Some True"
    and "leadsUsed_of profile < leadsLimit_of profile"
    and "run_apify_search env user (Some searchId) w = (Inr (RunResponse mode n), w')"
  shows "length (leads w') = length (leads w) + n
     \<and> (\<exists>p'. profiles w' (uid user) = Some p'
           \<and> leadsUsed_of p' = leadsUsed_of profile + int n
           \<and> leadsLimit_of p' = leadsLimit_of profile
           \<and> (leadsUsed_of profile = leadsLimit_of profile - 1 \<and> 2 \<le> n
                \<longrightarrow> leadsLimit_of p' < leadsUsed_of p'))"
proof -
  let ?w1 = "did (SearchSet searchId (running_patch env)) w"
  have w1: "faults ?w1 = []" "profiles ?w1 = profiles w" "leads ?w1 = leads w"
    using assms(1) by simp_all
  from run_apify_search_guard [OF assms(1-5), of env] assms(6,7,8)
  have "proceed env user searchId search profile ?w1 = (Inr (RunResponse mode n), w')"
    by simp
  from proceed_success [OF w1(1) this] w1(2,3) assms(5)
  have profs: "profiles w' (uid user) = Some (if n = 0 then profile
        else merge_profile (usage_patch env (leadsUsed_of profile + int n)) (Some profile))"
    and count: "length (leads w') = length (leads w) + n"
    by simp_all
  let ?p = "if n = 0 then profile
        else merge_profile (usage_patch env (leadsUsed_of profile + int n)) (Some profile)"
  have used: "leadsUsed_of ?p = leadsUsed_of profile + int n"
    and limit: "leadsLimit_of ?p = leadsLimit_of profile"
    by (simp_all add: merge_usage_limit)
  have "leadsUsed_of profile = leadsLimit_of profile - 1 \<and> 2 \<le> n
      \<longrightarrow> leadsLimit_of ?p < leadsUsed_of ?p"
    unfolding used limit by simp
  with profs used limit have "\<exists>p'. profiles w' (uid user) = Some p'
           \<and> leadsUsed_of p' = leadsUsed_of profile + int n
           \<and> leadsLimit_of p' = leadsLimit_of profile
           \<and> (leadsUsed_of profile = leadsLimit_of profile - 1 \<and> 2 \<le> n
                \<longrightarrow> leadsLimit_of p' < leadsUsed_of p')"
    by blast
  with count show ?thesis by simp
qed

theorem usage_increment_not_capped_witness:
  "leadsUsed_of profile_u1 = 1999 \<and> leadsLimit_of profile_u1 = 2000
   \<and> fst (run_apify_search env_demo user_u1 (Some ''s1'') (world_with profile_u1))
       = Inr (RunResponse Demo 2)
   \<and> length (leads (snd (run_apify_search env_demo user_u1 (Some ''s1'')
        (world_with profile_u1)))) = 2
   \<and> (\<exists>p'. profiles (snd (run_apify_search env_demo user_u1 (Some ''s1'')
              (world_with profile_u1))) ''u1'' = Some p'
         \<and> leadsUsed_of p' = 2001 \<and> leadsLimit_of p' = 2000)"
proof -
  let ?run = "run_apify_search env_demo user_u1 (Some ''s1'') (world_with profile_u1)"
  have name: "''s1'' \<noteq> []" by simp
  have p: "leadsUsed_of profile_u1 = 1999" "leadsLimit_of profile_u1 = 2000"
    "is_suspended profile_u1 \<noteq> Some True"
    by (simp_all add: profile_u1_def leadsUsed_of_def leadsLimit_of_def)
  then have below: "leadsUsed_of profile_u1 < leadsLimit_of profile_u1" by simp
  have demo: "\<not> truthy (APIFY_TOKEN env_demo)" by (simp add: env_demo_def truthy_def)
  have two: "length (buildMockLeads (math_random env_demo) search_s1) = 2"
    by (simp add: length_buildMockLeads search_s1_def)
  from run_apify_search_demo_runs
    [OF world_with_facts(1) name world_with_facts(2,3,4) p(3) below demo]
  have response: "fst ?run = Inr (RunResponse Demo 2)" by (simp add: two)
  then have run: "?run = (Inr (RunResponse Demo 2), snd ?run)"
    by (metis prod.collapse)
  note after = usage_increment_not_capped
    [OF world_with_facts(1) name world_with_facts(2,3,4) p(3) below run]
  from after have count: "length (leads (snd ?run)) = 2"
    by (simp add: world_with_facts)
  from after obtain p' where "profiles (snd ?run) (uid user_u1) = Some p'"
    "leadsUsed_of p' = leadsUsed_of profile_u1 + int 2"
    "leadsLimit_of p' = leadsLimit_of profile_u1"
    by blast
  then have "profiles (snd ?run) ''u1'' = Some p' \<and> leadsUsed_of p' = 2001
      \<and> leadsLimit_of p' = 2000"
    by (simp add: p user_u1_def)
  then have "\<exists>p'. profiles (snd ?run) ''u1'' = Some p' \<and> leadsUsed_of p' = 2001
      \<and> leadsLimit_of p' = 2000" ..
  with p(1,2) response count show ?thesis by blast
qed

definition env_live :: Env where
  "env_live =
     \<lparr> APIFY_TOKEN = Some ''apify_api_token'', now = ''2026-02-18T00:00:00.000Z'',
       math_random = (\<lambda>k. 1 / 2),
       actor_run = (\<lambda>q m. RunStarted (Some ''run1'') (Some ''dataset1'')),
       dataset_items = (\<lambda>d. DatasetJson (JArr [cafe_x, JNull, JObj []])),
       site_html = (\<lambda>url. Some ''<p>write to hello@x.example</p>'') \<rparr>"

lemma provider_results_stored:
  "(\<exists>out. normalizeApifyLeads items = Inr out \<and> length out = length items)
   \<and> (faults w = [] \<and> searchId \<noteq> [] \<and> map_of (searches w) searchId = Some search
        \<and> user_id search = Some (uid user) \<and> profiles w (uid user) = Some profile
        \<and> is_suspended profile \<noteq> Some True \<and> leadsUsed_of profile < leadsLimit_of profile
        \<and> truthy (APIFY_TOKEN env)
        \<and> actor_run env
             (template (keyword search) @ '' in '' @ template (city search) @ '', ''
                @ template (country search))
             (max_results search) = RunStarted run_id dataset_id
        \<and> truthy dataset_id
        \<and> dataset_items env (tested dataset_id) = DatasetJson (JArr items)
        \<and> run_apify_search env user (Some searchId) w = (r, w')
      \<longrightarrow> r = Inr (RunResponse Live (length items))
        \<and> length (leads w') = length (leads w) + length items
        \<and> stripped (leads w') = stripped (leads w)
             @ map without_email (map (lead_doc env (uid user) searchId) (map normalized items))
        \<and> (\<exists>d. map_of (searches w') searchId = Some d \<and> status d = Some Completed
              \<and> total_results d = Some (int (length items))))"
proof (intro conjI impI)
  show "\<exists>out. normalizeApifyLeads items = Inr out \<and> length out = length items"
    by (simp add: normalizeApifyLeads_total)
next
  assume a: "faults w = [] \<and> searchId \<noteq> [] \<and> map_of (searches w) searchId = Some search
        \<and> user_id search = Some (uid user) \<and> profiles w (uid user) = Some profile
        \<and> is_suspended profile \<noteq> Some True \<and> leadsUsed_of profile < leadsLimit_of profile
        \<and> truthy (APIFY_TOKEN env)
        \<and> actor_run env
             (template (keyword search) @ '' in '' @ template (city search) @ '', ''
                @ template (country search))
             (max_results search) = RunStarted run_id dataset_id
        \<and> truthy dataset_id
        \<and> dataset_items env (tested dataset_id) = DatasetJson (JArr items)
        \<and> run_apify_search env user (Some searchId) w = (r, w')"
  let ?w1 = "did (SearchSet searchId (running_patch env)) w"
  have w1: "faults ?w1 = []" "leads ?w1 = leads w" using a by simp_all
  have found: "found_in (JArr items) = map normalized items" by (simp add: found_in_def)
  from a run_apify_search_guard [of w searchId search user profile env]
  have run: "proceed env user searchId search profile ?w1 = (r, w')" by simp
  from a have started: "actor_run env
             (template (keyword search) @ '' in '' @ template (city search) @ '', ''
                @ template (country search))
             (max_results search) = RunStarted run_id dataset_id"
    and dataset: "truthy dataset_id"
      "dataset_items env (tested dataset_id) = DatasetJson (JArr items)"
    by simp_all
  from live_search_dataset [OF w1(1) started dataset, of "uid user" searchId
      "leadsUsed_of profile" "plan_of profile"]
  obtain v where v: "live_search env (uid user) searchId search (leadsUsed_of profile)
        (plan_of profile) ?w1 = (Inr (RunResponse Live (length items)), v)"
    "\<exists>d. map_of (searches v) searchId = Some d \<and> status d = Some Completed
         \<and> total_results d = Some (int (length items))"
    "stripped (leads v) = stripped (leads w)
       @ map without_email (map (lead_doc env (uid user) searchId) (map normalized items))"
    unfolding found w1(2) length_map by metis
  from v(1) a have "proceed env user searchId search profile ?w1
      = (Inr (RunResponse Live (length items)), v)"
    by (simp add: proceed_def io_catch_def)
  with run have r: "r = Inr (RunResponse Live (length items))" and w': "w' = v" by simp_all
  show "r = Inr (RunResponse Live (length items))" by (rule r)
  show "stripped (leads w') = stripped (leads w)
      @ map without_email (map (lead_doc env (uid user) searchId) (map normalized items))"
    unfolding w' by (rule v(3))
  then have "length (stripped (leads w')) = length (leads w) + length items" by simp
  then show "length (leads w') = length (leads w) + length items" by simp
  show "\<exists>d. map_of (searches w') searchId = Some d \<and> status d = Some Completed
              \<and> total_results d = Some (int (length items))"
    unfolding w' by (rule v(2))
qed

definition lead_blank :: LeadPayload where
  "lead_blank =
     \<lparr> business_name = None, address = None, phone = None, website = None, email = None,
       rating = None, reviews_count = None, category = None, latitude = None,
       longitude = None \<rparr>"

text \<open>
  Claim C9. The normaliser returns one lead per element of its input, for every input.
  In provider mode, on a Search the caller owns whose Profile passes the guard, with no
  call to the store failing, a started run with a dataset and a dataset that is an array:
  the answer counts every element of the array, total_results is that count, and the
  stored leads are the old ones followed by one document per element, holding the lead the
  normaliser returned for it, the search id, the user id and the time of the call (emails
  aside, which enrichment may fill in). The Search's max_results plays no part.
\<close>

theorem provider_results_not_truncated:
  "\<exists>out. normalizeApifyLeads items = Inr out \<and> length out = length items
   \<and> (faults w = [] \<and> searchId \<noteq> [] \<and> map_of (searches w) searchId = Some search
        \<and> user_id search = Some (uid user) \<and> profiles w (uid user) = Some profile
        \<and> is_suspended profile \<noteq> Some True \<and> leadsUsed_of profile < leadsLimit_of profile
        \<and> truthy (APIFY_TOKEN env)
        \<and> actor_run env
             (template (keyword search) @ '' in '' @ template (city search) @ '', ''
                @ template (country search))
             (max_results search) = RunStarted run_id dataset_id
        \<and> truthy dataset_id
        \<and> dataset_items env (tested dataset_id) = DatasetJson (JArr items)
        \<and> run_apify_search env user (Some searchId) w = (r, w')
      \<longrightarrow> r = Inr (RunResponse Live (length items))
        \<and> length (leads w') = length (leads w) + length items
        \<and> map (\<lambda>(i, d). d\<lparr>lead := (lead d)\<lparr>email := None\<rparr>\<rparr>) (leads w')
            = map (\<lambda>(i, d). d\<lparr>lead := (lead d)\<lparr>email := None\<rparr>\<rparr>) (leads w)
              @ map (\<lambda>l. \<lparr> lead = l\<lparr>email := None\<rparr>, search_id = searchId,
                          lead_user_id = uid user, created_at = now env \<rparr>) out
        \<and> (\<exists>d. map_of (searches w') searchId = Some d \<and> status d = Some Completed
              \<and> total_results d = Some (int (length items))))"
proof (intro exI [of _ "map normalized items"] conjI impI)
  show "normalizeApifyLeads items = Inr (map normalized items)"
    by (rule normalizeApifyLeads_total)
  show "length (map normalized items) = length items" by simp
next
  assume a: "faults w = [] \<and> searchId \<noteq> [] \<and> map_of (searches w) searchId = Some search
        \<and> user_id search = Some (uid user) \<and> profiles w (uid user) = Some profile
        \<and> is_suspended profile \<noteq> Some True \<and> leadsUsed_of profile < leadsLimit_of profile
        \<and> truthy (APIFY_TOKEN env)
        \<and> actor_run env
             (template (keyword search) @ '' in '' @ template (city search) @ '', ''
                @ template (country search))
             (max_results search) = RunStarted run_id dataset_id
        \<and> truthy dataset_id
        \<and> dataset_items env (tested dataset_id) = DatasetJson (JArr items)
        \<and> run_apify_search env user (Some searchId) w = (r, w')"
  from provider_results_stored [of items w searchId search user profile env run_id
      dataset_id r w'] a
  have stored: "r = Inr (RunResponse Live (length items))"
    "length (leads w') = length (leads w) + length items"
    "stripped (leads w') = stripped (leads w)
       @ map without_email (map (lead_doc env (uid user) searchId) (map normalized items))"
    "\<exists>d. map_of (searches w') searchId = Some d \<and> status d = Some Completed
              \<and> total_results d = Some (int (length items))"
    by blast+
  show "r = Inr (RunResponse Live (length items))" by (rule stored(1))
  show "length (leads w') = length (leads w) + length items" by (rule stored(2))
  show "\<exists>d. map_of (searches w') searchId = Some d \<and> status d = Some Completed
              \<and> total_results d = Some (int (length items))" by (rule stored(4))
  have docs: "map without_email (map (lead_doc env (uid user) searchId) (map normalized items))
      = map (\<lambda>l. \<lparr> lead = l\<lparr>email := None\<rparr>, search_id = searchId,
                          lead_user_id = uid user, created_at = now env \<rparr>)
          (map normalized items)"
    by (simp add: without_email_def lead_doc_def)
  have blanked: "\<And>ls. stripped ls = map (\<lambda>(i, d). d\<lparr>lead := (lead d)\<lparr>email := None\<rparr>\<rparr>) ls"
    by (simp add: stripped_def without_email_def)
  from stored(3) show "map (\<lambda>(i, d). d\<lparr>lead := (lead d)\<lparr>email := None\<rparr>\<rparr>) (leads w')
            = map (\<lambda>(i, d). d\<lparr>lead := (lead d)\<lparr>email := None\<rparr>\<rparr>) (leads w)
              @ map (\<lambda>l. \<lparr> lead = l\<lparr>email := None\<rparr>, search_id = searchId,
                          lead_user_id = uid user, created_at = now env \<rparr>)
                  (map normalized items)"
    unfolding docs blanked .
qed


theorem provider_results_not_truncated_witness:
  "max_results search_s1 = Some 2
   \<and> fst (run_apify_search env_live user_u1 (Some ''s1'') (world_with profile_u1))
       = Inr (RunResponse Live 3)
   \<and> length (leads (snd (run_apify_search env_live user_u1 (Some ''s1'')
        (world_with profile_u1)))) = 3
   \<and> map (\<lambda>(i, d). d\<lparr>lead := (lead d)\<lparr>email := None\<rparr>\<rparr>)
        (leads (snd (run_apify_search env_live user_u1 (Some ''s1'') (world_with profile_u1))))
       = [\<lparr> lead = \<lparr> business_name = Some ''Cafe X'', address = None, phone = None,
                      website = None, email = None, rating = Some 4.2, reviews_count = None,
                      category = Some ''cafe'', latitude = Some 1.5, longitude = Some 2.5 \<rparr>,
            search_id = ''s1'', lead_user_id = ''u1'',
            created_at = ''2026-02-18T00:00:00.000Z'' \<rparr>,
          \<lparr> lead = lead_blank, search_id = ''s1'', lead_user_id = ''u1'',
            created_at = ''2026-02-18T00:00:00.000Z'' \<rparr>,
          \<lparr> lead = lead_blank, search_id = ''s1'', lead_user_id = ''u1'',
            created_at = ''2026-02-18T00:00:00.000Z'' \<rparr>]
   \<and> (\<exists>d. map_of (searches (snd (run_apify_search env_live user_u1 (Some ''s1'')
              (world_with profile_u1)))) ''s1'' = Some d
         \<and> status d = Some Completed \<and> total_results d = Some 3)"
proof -
  let ?run = "run_apify_search env_live user_u1 (Some ''s1'') (world_with profile_u1)"
  let ?items = "[cafe_x, JNull, JObj []]"
  have hyps: "faults (world_with profile_u1) = [] \<and> ''s1'' \<noteq> []
        \<and> map_of (searches (world_with profile_u1)) ''s1'' = Some search_s1
        \<and> user_id search_s1 = Some (uid user_u1)
        \<and> profiles (world_with profile_u1) (uid user_u1) = Some profile_u1
        \<and> is_suspended profile_u1 \<noteq> Some True
        \<and> leadsUsed_of profile_u1 < leadsLimit_of profile_u1
        \<and> truthy (APIFY_TOKEN env_live)
        \<and> actor_run env_live
             (template (keyword search_s1) @ '' in '' @ template (city search_s1) @ '', ''
                @ template (country search_s1))
             (max_results search_s1) = RunStarted (Some ''run1'') (Some ''dataset1'')
        \<and> truthy (Some ''dataset1'')
        \<and> dataset_items env_live (tested (Some ''dataset1''))
            = DatasetJson (JArr [cafe_x, JNull, JObj []])
        \<and> ?run = (fst ?run, snd ?run)"
    by (simp add: world_with_facts env_live_def truthy_def)
      (simp add: profile_u1_def leadsUsed_of_def leadsLimit_of_def)
  from provider_results_not_truncated
    [of ?items "world_with profile_u1" "''s1''" search_s1 user_u1
      profile_u1 env_live "Some ''run1''" "Some ''dataset1''" "fst ?run" "snd ?run"] hyps
  obtain out where out: "normalizeApifyLeads ?items = Inr out"
    and run: "fst ?run = Inr (RunResponse Live (length ?items))"
      "length (leads (snd ?run)) = length (leads (world_with profile_u1)) + length ?items"
      "map (\<lambda>(i, d). d\<lparr>lead := (lead d)\<lparr>email := None\<rparr>\<rparr>) (leads (snd ?run))
        = map (\<lambda>(i, d). d\<lparr>lead := (lead d)\<lparr>email := None\<rparr>\<rparr>)
            (leads (world_with profile_u1))
          @ map (\<lambda>l. \<lparr> lead = l\<lparr>email := None\<rparr>, search_id = ''s1'',
                      lead_user_id = uid user_u1, created_at = now env_live \<rparr>) out"
      "\<exists>d. map_of (searches (snd ?run)) ''s1'' = Some d \<and> status d = Some Completed
              \<and> total_results d = Some (int (length ?items))"
    by blast
  from out have "out = map normalized ?items" by (simp add: normalizeApifyLeads_total)
  then have leads_out: "out =
      [\<lparr> business_name = Some ''Cafe X'', address = None, phone = None,
          website = None, email = None, rating = Some 4.2, reviews_count = None,
          category = Some ''cafe'', latitude = Some 1.5, longitude = Some 2.5 \<rparr>,
       lead_blank, lead_blank]"
    by (simp add: normalized_cafe_x) (simp add: normalized_def lead_blank_def)
  have 1: "fst ?run = Inr (RunResponse Live 3)" using run(1) by simp
  have 2: "length (leads (snd ?run)) = 3" using run(2) by (simp add: world_with_facts)
  have 3: "map (\<lambda>(i, d). d\<lparr>lead := (lead d)\<lparr>email := None\<rparr>\<rparr>) (leads (snd ?run))
       = [\<lparr> lead = \<lparr> business_name = Some ''Cafe X'', address = None, phone = None,
                      website = None, email = None, rating = Some 4.2, reviews_count = None,
                      category = Some ''cafe'', latitude = Some 1.5, longitude = Some 2.5 \<rparr>,
            search_id = ''s1'', lead_user_id = ''u1'',
            created_at = ''2026-02-18T00:00:00.000Z'' \<rparr>,
          \<lparr> lead = lead_blank, search_id = ''s1'', lead_user_id = ''u1'',
            created_at = ''2026-02-18T00:00:00.000Z'' \<rparr>,
          \<lparr> lead = lead_blank, search_id = ''s1'', lead_user_id = ''u1'',
            created_at = ''2026-02-18T00:00:00.000Z'' \<rparr>]"
    unfolding run(3) leads_out
    by (simp add: world_with_facts user_u1_def env_live_def lead_blank_def)
  have 4: "\<exists>d. map_of (searches (snd ?run)) ''s1'' = Some d
         \<and> status d = Some Completed \<and> total_results d = Some 3"
    using run(4) by simp
  have 5: "max_results search_s1 = Some 2" by (simp add: search_s1_def)
  from 5 1 2 3 4 show ?thesis by blast
qed

lemma run_apify_search_demo_count:
  assumes "faults w = []" "searchId \<noteq> []" "map_of (searches w) searchId = Some search"
    "user_id search = Some (uid user)" "profiles w (uid user) = Some profile"
    "is_suspended profile \<noteq> Some True" "leadsUsed_of profile < leadsLimit_of profile"
    "\<not> truthy (APIFY_TOKEN env)"
  shows "length (leads (snd (run_apify_search env user (Some searchId) w)))
     = length (leads w) + length (buildMockLeads (math_random env) search)"
proof -
  let ?run = "run_apify_search env user (Some searchId) w"
  let ?n = "length (buildMockLeads (math_random env) search)"
  let ?w1 = "did (SearchSet searchId (running_patch env)) w"
  have w1: "faults ?w1 = []" "leads ?w1 = leads w" using assms(1) by simp_all
  from run_apify_search_demo_runs [OF assms] have "?run = (Inr (RunResponse Demo ?n), snd ?run)"
    by (metis prod.collapse)
  with run_apify_search_guard [OF assms(1-5), of env] assms(6,7)
  have "proceed env user searchId search profile ?w1 = (Inr (RunResponse Demo ?n), snd ?run)"
    by simp
  from proceed_success [OF w1(1) this] w1(2) show ?thesis by simp
qed

text \<open>
  Claim C10. With no provider token the run is synthetic and enrichment is not part of
  it, whatever the plan and whichever calls fail: the request fetches no website and writes
  no email to a stored lead; the leads stored before are untouched, and every lead the
  request adds has a null email.
\<close>

theorem demo_mode_never_enriches:
  assumes "\<not> truthy (APIFY_TOKEN env)"
    and "run_apify_search env user requested_id w = (r, w')"
  shows "\<exists>js new. journal w' = journal w @ js \<and> list_all (\<lambda>e. \<not> enriching e) js
     \<and> leads w' = leads w @ new \<and> list_all (\<lambda>(i, d). email (lead d) = None) new"
proof -
  from onlyD [OF only_run_apify_search_demo [OF assms(1)] assms(2)]
  obtain js where js: "journal w' = journal w @ js" "same_store w' (replay js w)"
    "list_all (finalizing (\<lambda>l. email l = None)) js"
    by blast
  from leads_replay_finalizing [OF js(3), of w]
  obtain new where new: "leads (replay js w) = leads w @ new"
    "list_all (\<lambda>(i, d). email (lead d) = None) new"
    by blast
  from js(2) new(1) have "leads w' = leads w @ new" by (simp add: same_store_def)
  moreover from js(3) have "list_all (\<lambda>e. \<not> enriching e) js"
    by (auto simp: list_all_iff dest: finalizing_not_enriching)
  ultimately show ?thesis using js(1) new(2) by blast
qed

theorem demo_mode_never_enriches_witness:
  "plan_of (profile_u1\<lparr>plan := Some Growth\<rparr>) = Growth
   \<and> \<not> truthy (APIFY_TOKEN env_demo)
   \<and> fst (run_apify_search env_demo user_u1 (Some ''s1'')
            (world_with (profile_u1\<lparr>plan := Some Growth\<rparr>))) = Inr (RunResponse Demo 2)
   \<and> (\<exists>js new.
         journal (snd (run_apify_search env_demo user_u1 (Some ''s1'')
            (world_with (profile_u1\<lparr>plan := Some Growth\<rparr>)))) = js
       \<and> list_all (\<lambda>e. \<not> enriching e) js
       \<and> leads (snd (run_apify_search env_demo user_u1 (Some ''s1'')
            (world_with (profile_u1\<lparr>plan := Some Growth\<rparr>)))) = new
       \<and> length new = 2
       \<and> list_all (\<lambda>(i, d). email (lead d) = None) new)"
proof -
  let ?p = "profile_u1\<lparr>plan := Some Growth\<rparr>"
  let ?run = "run_apify_search env_demo user_u1 (Some ''s1'') (world_with ?p)"
  have name: "''s1'' \<noteq> []" by simp
  have p: "plan_of ?p = Growth" "is_suspended ?p \<noteq> Some True"
    "leadsUsed_of ?p < leadsLimit_of ?p"
    by (simp_all add: profile_u1_def plan_of_def leadsUsed_of_def leadsLimit_of_def)
  have demo: "\<not> truthy (APIFY_TOKEN env_demo)" by (simp add: env_demo_def truthy_def)
  have two: "length (buildMockLeads (math_random env_demo) search_s1) = 2"
    by (simp add: length_buildMockLeads search_s1_def)
  from run_apify_search_demo_runs
    [OF world_with_facts(1) name world_with_facts(2,3,4) p(2,3) demo]
  have response: "fst ?run = Inr (RunResponse Demo 2)" by (simp add: two)
  then have run: "?run = (Inr (RunResponse Demo 2), snd ?run)" by (metis prod.collapse)
  from run_apify_search_demo_count
    [OF world_with_facts(1) name world_with_facts(2,3,4) p(2,3) demo]
  have count: "length (leads (snd ?run)) = 2"
    by (simp add: world_with_facts two)
  from demo_mode_never_enriches [OF demo prod.collapse [symmetric], of user_u1 "Some ''s1''"
      "world_with ?p"]
  obtain js new where "journal (snd ?run) = journal (world_with ?p) @ js"
    "list_all (\<lambda>e. \<not> enriching e) js" "leads (snd ?run) = leads (world_with ?p) @ new"
    "list_all (\<lambda>(i, d). email (lead d) = None) new"
    by blast
  with count have "journal (snd ?run) = js \<and> list_all (\<lambda>e. \<not> enriching e) js
      \<and> leads (snd ?run) = new \<and> length new = 2
      \<and> list_all (\<lambda>(i, d). email (lead d) = None) new"
    by (simp add: world_with_facts)
  then have "\<exists>js new. journal (snd ?run) = js \<and> list_all (\<lambda>e. \<not> enriching e) js
      \<and> leads (snd ?run) = new \<and> length new = 2
      \<and> list_all (\<lambda>(i, d). email (lead d) = None) new"
    by blast
  with p(1) demo response show ?thesis by blast
qed

section \<open>The status of a Search over one invocation\<close>

text \<open>
  The values written to the \<^verbatim>\<open>status\<close> field of the Search \<open>k\<close> by a list of effects, in
  order; the transitions of the specification's state machine; and a chain of transitions
  from a status on.
\<close>

fun patch_statuses :: "SearchField list \<Rightarrow> SearchStatus list" where
  "patch_statuses [] = []"
| "patch_statuses (Status s # fs) = s # patch_statuses fs"
| "patch_statuses (f # fs) = patch_statuses fs"

fun op_statuses :: "string \<Rightarrow> BatchOp \<Rightarrow> SearchStatus list" where
  "op_statuses k (MergeSearch k' patch) = (if k' = k then patch_statuses patch else [])"
| "op_statuses k b = []"

fun effect_statuses :: "string \<Rightarrow> Effect \<Rightarrow> SearchStatus list" where
  "effect_statuses k (SearchSet k' patch) = (if k' = k then patch_statuses patch else [])"
| "effect_statuses k (BatchCommit ops) = concat (map (op_statuses k) ops)"
| "effect_statuses k e = []"

definition status_writes :: "string \<Rightarrow> Effect list \<Rightarrow> SearchStatus list" where
  "status_writes k js = concat (map (effect_statuses k) js)"

fun allowed :: "SearchStatus \<Rightarrow> SearchStatus \<Rightarrow> bool" where
  "allowed Queued Running = True"
| "allowed Running Completed = True"
| "allowed Running Failed = True"
| "allowed Queued Failed = True"
| "allowed a b = False"

fun forward_chain :: "SearchStatus \<Rightarrow> SearchStatus list \<Rightarrow> bool" where
  "forward_chain s [] = True"
| "forward_chain s (t # ts) = (allowed s t \<and> forward_chain t ts)"

lemma status_writes_simps [simp]:
  "status_writes k [] = []"
  "status_writes k (e # js) = effect_statuses k e @ status_writes k js"
  "status_writes k (js1 @ js2) = status_writes k js1 @ status_writes k js2"
  by (simp_all add: status_writes_def)

lemma statuses_lead_writes [simp]:
  "concat (map (op_statuses k) (lead_writes env userId searchId chunk)) = []"
  by (simp add: lead_writes_def)



lemma patch_statuses_patches [simp]:
  "patch_statuses (completed_patch env n) = [Completed]"
  "patch_statuses (failed_patch env msg) = [Failed]"
  "patch_statuses (running_patch env) = [Running]"
  by (simp_all add: completed_patch_def failed_patch_def running_patch_def)

text \<open>What a computation writes to the status, by outcome.\<close>

lemma emits_and:
  assumes "emits Q m" and "\<And>w r w'. m w = (r, w') \<Longrightarrow> R r"
  shows "emits (\<lambda>js r. Q js r \<and> R r) m"
  unfolding emits_def
proof (intro allI impI)
  fix w r w' assume run: "m w = (r, w')"
  from emitsD [OF assms(1) run] assms(2) [OF run]
  show "\<exists>js. journal w' = journal w @ js \<and> same_store w' (replay js w) \<and> Q js r \<and> R r"
    by blast
qed

lemma only_no_status:
  assumes "only P m" and "\<And>e. P e \<Longrightarrow> effect_statuses k e = []"
  shows "emits (\<lambda>js r. status_writes k js = []) m"
proof -
  have "list_all P js \<Longrightarrow> status_writes k js = []" for js
    by (induction js) (simp_all add: assms(2))
  with assms(1) show ?thesis unfolding only_def by (rule emits_weaken)
qed

lemma enriching_no_status: "enriching e \<Longrightarrow> effect_statuses k e = []"
  by (cases e) simp_all

lemma emits_maybeEnrichEmails:
  "emits (\<lambda>js r. status_writes k js = [] \<and> r = Inr ())
     (maybeEnrichEmails env pl searchId found)"
proof (rule emits_and)
  show "emits (\<lambda>js r. status_writes k js = []) (maybeEnrichEmails env pl searchId found)"
    by (rule only_no_status [OF only_maybeEnrichEmails enriching_no_status])
next
  fix w r w' assume "maybeEnrichEmails env pl searchId found w = (r, w')"
  with maybeEnrichEmails_returns [of env pl searchId found w] show "r = Inr ()" by auto
qed

lemma emits_commit_chunks:
  "chunks \<noteq> [] \<Longrightarrow>
     emits (\<lambda>js r. status_writes k js = (if k = searchId \<and> r = Inr () then [Completed] else []))
       (commit_chunks env userId searchId L cur chunks)"
proof (induction chunks rule: list_nonempty_induct)
  case (single chunk)
  show ?case
    unfolding commit_chunks_last
  proof (rule emits_bind [where
        ?Q1.0 = "\<lambda>js r. status_writes k js = (if k = searchId \<and> r = Inr () then [Completed] else [])"
        and ?Q2.0 = "\<lambda>v js r. js = [] \<and> r = Inr ()"])
    show "emits (\<lambda>js r. status_writes k js = (if k = searchId \<and> r = Inr () then [Completed] else []))
        (perform (BatchCommit (lead_writes env userId searchId chunk @
               [MergeSearch searchId (completed_patch env (length L)),
                MergeProfile userId (usage_patch env (cur + int (length L)))])))"
      by (rule emits_perform) simp_all
    show "emits (\<lambda>js r. js = [] \<and> r = Inr ()) (io_return ())" for v :: unit
      by (rule emits_return) simp
  qed simp_all
next
  case (cons chunk rest)
  show ?case
    unfolding commit_chunks_more [OF cons.hyps]
  proof (rule emits_bind [where
        ?Q1.0 = "\<lambda>js r. status_writes k js = []"
        and ?Q2.0 = "\<lambda>v js r. status_writes k js
              = (if k = searchId \<and> r = Inr () then [Completed] else [])"])
    show "emits (\<lambda>js r. status_writes k js = [])
        (perform (BatchCommit (lead_writes env userId searchId chunk)))"
      by (rule emits_perform) simp_all
    show "emits (\<lambda>js r. status_writes k js = (if k = searchId \<and> r = Inr () then [Completed] else []))
        (commit_chunks env userId searchId L cur rest)" for v :: unit
      by (rule cons.IH)
  qed simp_all
qed

lemma emits_writeLeadsAndFinalize:
  "emits (\<lambda>js r. status_writes k js = (if k = searchId \<and> r = Inr () then [Completed] else []))
     (writeLeadsAndFinalize env userId searchId L cur)"
proof (cases "L = []")
  case True
  show ?thesis
    unfolding True writeLeadsAndFinalize_empty by (rule emits_perform) simp_all
next
  case False
  then show ?thesis
    by (simp add: writeLeadsAndFinalize_chunks emits_commit_chunks chunkArray_not_empty)
qed

text \<open>
  \<open>wrote k sid s\<close>: the computation writes status \<open>s\<close> to the Search \<open>sid\<close> exactly
  when it returns, and no other status. \<open>tried k sid\<close>: what the body of the handler's
  \<^verbatim>\<open>try\<close> writes, by outcome.
\<close>

definition wrote :: "string \<Rightarrow> string \<Rightarrow> SearchStatus \<Rightarrow> Effect list \<Rightarrow> string + 'a \<Rightarrow> bool" where
  "wrote k sid s js r = (status_writes k js = (if k = sid \<and> \<not> isl r then [s] else []))"

definition tried :: "string \<Rightarrow> string \<Rightarrow> Effect list \<Rightarrow> string + 'a \<Rightarrow> bool" where
  "tried k sid js r =
     (status_writes k js \<in>
        (if k = sid
         then (if isl r then {[], [Running]} else {[], [Failed], [Running, Completed]})
         else {[]}))"

lemma emits_perform_status:
  "patch_statuses patch = [s] \<Longrightarrow> emits (wrote k sid s) (perform (SearchSet sid patch))"
  by (rule emits_perform) (simp_all add: wrote_def)

lemma emits_then_return:
  assumes "emits (wrote k sid s) m"
  shows "emits (wrote k sid s) (io_bind m (\<lambda>_. io_return v))"
proof (rule emits_bind [where ?Q1.0 = "wrote k sid s" and ?Q2.0 = "\<lambda>u js r. js = [] \<and> \<not> isl r"])
  show "emits (wrote k sid s) m" by (rule assms)
  show "emits (\<lambda>js r. js = [] \<and> \<not> isl r) (io_return v)" for u :: 'c
    by (rule emits_return) simp
qed (simp_all add: wrote_def)

lemma emits_writeLeadsAndFinalize_wrote:
  "emits (wrote k searchId Completed) (writeLeadsAndFinalize env userId searchId L cur)"
proof (rule emits_weaken [OF emits_writeLeadsAndFinalize [of k searchId]])
  fix js and r :: "string + unit"
  assume "status_writes k js = (if k = searchId \<and> r = Inr () then [Completed] else [])"
  then show "wrote k searchId Completed js r"
    by (cases r) (simp_all add: wrote_def)
qed

lemma emits_live_search:
  "emits (wrote k searchId Completed) (live_search env userId searchId search leadsUsed pl)"
proof (cases "actor_run env
           (template (keyword search) @ '' in '' @ template (city search) @ '', ''
              @ template (country search))
           (max_results search)")
  case (RunFails msg)
  show ?thesis unfolding live_search_def RunFails RunOutcome.case
    by (rule emits_throw) (simp add: wrote_def)
next
  case (RunNotOk code details)
  show ?thesis unfolding live_search_def RunNotOk RunOutcome.case
    by (rule emits_throw) (simp add: wrote_def)
next
  case (RunStarted run_id dataset_id)
  have first: "emits (\<lambda>js r. status_writes k js = [])
      (if truthy run_id
       then perform (SearchSet searchId [ApifyRunId (tested run_id), UpdatedAt (now env)])
       else io_return ())"
  proof (cases "truthy run_id")
    case True
    then show ?thesis by (simp only: if_True) (rule emits_perform; simp)
  next
    case False
    then show ?thesis by (simp only: if_False) (rule emits_return; simp)
  qed
  have finish: "emits (wrote k searchId Completed)
      (io_bind (writeLeadsAndFinalize env userId searchId found leadsUsed)
         (\<lambda>_. io_bind (maybeEnrichEmails env pl searchId found)
         (\<lambda>_. io_return (RunResponse Live (length found)))))" for found
  proof (rule emits_bind [where ?Q1.0 = "wrote k searchId Completed"
        and ?Q2.0 = "\<lambda>u js r. status_writes k js = [] \<and> \<not> isl r"])
    show "emits (wrote k searchId Completed)
        (writeLeadsAndFinalize env userId searchId found leadsUsed)"
      by (rule emits_writeLeadsAndFinalize_wrote)
    show "emits (\<lambda>js r. status_writes k js = [] \<and> \<not> isl r)
        (io_bind (maybeEnrichEmails env pl searchId found)
           (\<lambda>_. io_return (RunResponse Live (length found))))" for u :: unit
    proof (rule emits_bind [where ?Q1.0 = "\<lambda>js r. status_writes k js = [] \<and> r = Inr ()"
          and ?Q2.0 = "\<lambda>u js r. js = [] \<and> \<not> isl r"])
      show "emits (\<lambda>js r. status_writes k js = [] \<and> r = Inr ())
          (maybeEnrichEmails env pl searchId found)"
        by (rule emits_maybeEnrichEmails)
      show "emits (\<lambda>js r. js = [] \<and> \<not> isl r) (io_return (RunResponse Live (length found)))"
        for u :: unit
        by (rule emits_return) simp
    qed simp_all
  qed (simp_all add: wrote_def)
  have rest: "emits (wrote k searchId Completed)
      (if \<not> truthy dataset_id
       then io_bind
              (perform (SearchSet searchId [Status Completed, TotalResults 0, UpdatedAt (now env)]))
              (\<lambda>_. io_return (RunResponse Live 0))
       else (case dataset_items env (tested dataset_id) of
               DatasetFails message \<Rightarrow> io_throw message
             | DatasetJson items \<Rightarrow>
                 (case (case items of JArr xs \<Rightarrow> normalizeApifyLeads xs | _ \<Rightarrow> Inr []) of
                    Inl e \<Rightarrow> io_throw (message_of e)
                  | Inr found \<Rightarrow>
                      io_bind (writeLeadsAndFinalize env userId searchId found leadsUsed)
                        (\<lambda>_. io_bind (maybeEnrichEmails env pl searchId found)
                        (\<lambda>_. io_return (RunResponse Live (length found)))))))"
  proof (cases "truthy dataset_id")
    case False
    then show ?thesis
      by (simp only: not_False_eq_True if_True)
        (rule emits_then_return, rule emits_perform_status, simp)
  next
    case True
    show ?thesis
    proof (cases "dataset_items env (tested dataset_id)")
      case (DatasetFails msg)
      with True show ?thesis
        by (simp only: not_True_eq_False if_False DatasetOutcome.case)
          (rule emits_throw, simp add: wrote_def)
    next
      case (DatasetJson items)
      with True show ?thesis
        by (simp only: not_True_eq_False if_False DatasetOutcome.case dataset_leads sum.case)
          (rule finish)
    qed
  qed
  show ?thesis
    unfolding live_search_def RunStarted RunOutcome.case
  proof (rule emits_bind [where ?Q1.0 = "\<lambda>js r. status_writes k js = []"
        and ?Q2.0 = "\<lambda>u. wrote k searchId Completed"])
    show "emits (\<lambda>js r. status_writes k js = [])
      (if truthy run_id
       then perform (SearchSet searchId [ApifyRunId (tested run_id), UpdatedAt (now env)])
       else io_return ())"
      by (rule first)
  qed (use rest in \<open>simp_all add: wrote_def\<close>)
qed

lemma emits_rejected:
  "emits (tried k searchId)
     (io_bind (perform (SearchSet searchId (failed_patch env msg)))
        (\<lambda>_. io_return (SendError code msg)))"
proof (rule emits_weaken [where Q = "wrote k searchId Failed"])
  show "emits (wrote k searchId Failed)
     (io_bind (perform (SearchSet searchId (failed_patch env msg)))
        (\<lambda>_. io_return (SendError code msg)))"
    by (rule emits_then_return, rule emits_perform_status) simp
qed (simp add: wrote_def tried_def)

lemma emits_started:
  assumes "emits (wrote k searchId Completed) m"
  shows "emits (tried k searchId)
     (io_bind (perform (SearchSet searchId (running_patch env))) (\<lambda>_. m))"
proof (rule emits_bind [where ?Q1.0 = "wrote k searchId Running"
      and ?Q2.0 = "\<lambda>u. wrote k searchId Completed"])
  show "emits (wrote k searchId Running) (perform (SearchSet searchId (running_patch env)))"
    by (rule emits_perform_status) simp
qed (use assms in \<open>auto simp: wrote_def tried_def\<close>)

lemma emits_after_read:
  assumes "\<And>v. emits (tried k searchId) (f v)"
  shows "emits (tried k searchId) (io_bind (db_read g) f)"
proof (rule emits_bind [where ?Q1.0 = "\<lambda>js r. js = []" and ?Q2.0 = "\<lambda>v. tried k searchId"])
  show "emits (\<lambda>js r. js = []) (db_read g)" by (rule emits_db_read) simp
qed (use assms in \<open>simp_all add: tried_def\<close>)

lemma emits_answer: "emits (tried k searchId) (io_return v)"
  by (rule emits_return) (simp add: tried_def)

lemma emits_if:
  "(c \<Longrightarrow> emits Q a) \<Longrightarrow> (\<not> c \<Longrightarrow> emits Q b) \<Longrightarrow> emits Q (if c then a else b)"
  by simp

lemma emits_option:
  "emits Q a \<Longrightarrow> (\<And>x. emits Q (f x)) \<Longrightarrow> emits Q (case v of None \<Rightarrow> a | Some x \<Rightarrow> f x)"
  by (cases v) simp_all

lemma emits_run_search_try: "emits (tried k searchId) (run_search_try env user searchId)"
  unfolding run_search_try_def Let_def
  by (intro emits_after_read emits_option emits_if emits_answer emits_rejected emits_started
      emits_then_return emits_writeLeadsAndFinalize_wrote emits_live_search)

text \<open>
  \<open>handled k\<close>: the handler answers, and the statuses it writes to one Search are one of
  five sequences.
\<close>

definition handled :: "string \<Rightarrow> Effect list \<Rightarrow> string + 'a \<Rightarrow> bool" where
  "handled k js r =
     (\<not> isl r \<and> status_writes k js \<in>
        {[], [Failed], [Running], [Running, Completed], [Running, Failed]})"

lemma emits_record_failure:
  "emits (\<lambda>js r. \<not> isl r \<and> status_writes k js \<in> {[], [Failed]})
     (io_bind (io_ignore_errors (perform (SearchSet searchId (failed_patch env message))))
        (\<lambda>_. io_return (SendError 500 message)))"
proof (rule emits_bind [where ?Q1.0 = "\<lambda>js r. \<not> isl r \<and> status_writes k js \<in> {[], [Failed]}"
      and ?Q2.0 = "\<lambda>u js r. js = [] \<and> \<not> isl r"])
  show "emits (\<lambda>js r. \<not> isl r \<and> status_writes k js \<in> {[], [Failed]})
      (io_ignore_errors (perform (SearchSet searchId (failed_patch env message))))"
  proof (rule emits_ignore_errors [where ?Q1.0 = "wrote k searchId Failed"])
    show "emits (wrote k searchId Failed) (perform (SearchSet searchId (failed_patch env message)))"
      by (rule emits_perform_status) simp
  qed (simp add: wrote_def)
  show "emits (\<lambda>js r. js = [] \<and> \<not> isl r) (io_return (SendError 500 message))" for u :: unit
    by (rule emits_return) simp
qed simp_all

lemma emits_run_apify_search: "emits (handled k) (run_apify_search env user requested_id)"
proof -
  have none: "emits (handled k) (io_return (SendError 400 ''search_id required''))"
    by (rule emits_return) (simp add: handled_def)
  have caught: "emits (handled k)
      (io_catch (run_search_try env user searchId) (\<lambda>message.
         io_bind
           (io_ignore_errors (perform (SearchSet searchId (failed_patch env message))))
           (\<lambda>_. io_return (SendError 500 message))))" for searchId
  proof (rule emits_catch [where ?Q1.0 = "tried k searchId"
        and ?Q2.0 = "\<lambda>msg js r. \<not> isl r \<and> status_writes k js \<in> {[], [Failed]}"])
    show "emits (tried k searchId) (run_search_try env user searchId)"
      by (rule emits_run_search_try)
    show "emits (\<lambda>js r. \<not> isl r \<and> status_writes k js \<in> {[], [Failed]})
        (io_bind (io_ignore_errors (perform (SearchSet searchId (failed_patch env msg))))
           (\<lambda>_. io_return (SendError 500 msg)))" for msg
      by (rule emits_record_failure)
  next
    fix js and v :: Response
    assume "tried k searchId js (Inr v :: string + Response)"
    then show "handled k js (Inr v :: string + Response)"
      by (auto simp: tried_def handled_def split: if_splits)
  next
    fix js1 msg js2 and r :: "string + Response"
    assume "tried k searchId js1 (Inl msg :: string + Response)"
      "\<not> isl r \<and> status_writes k js2 \<in> {[], [Failed]}"
    then show "handled k (js1 @ js2) r"
      by (auto simp: tried_def handled_def split: if_splits)
  qed
  show ?thesis
    unfolding run_apify_search_def
    by (intro emits_option emits_if none caught)
qed

text \<open>The stored status after a list of status writes.\<close>

definition status_after :: "SearchStatus option \<Rightarrow> SearchStatus list \<Rightarrow> SearchStatus option" where
  "status_after s written = fold (\<lambda>t previous. Some t) written s"

lemma status_after_simps [simp]:
  "status_after s [] = s"
  "status_after s (t # ts) = status_after (Some t) ts"
  "status_after s (a @ b) = status_after (status_after s a) b"
  by (simp_all add: status_after_def)

lemma status_fold_fields:
  "status (fold set_search_field patch d) = status_after (status d) (patch_statuses patch)"
proof (induction patch arbitrary: d)
  case Nil
  show ?case by simp
next
  case (Cons f patch)
  show ?case by (cases f) (simp_all add: Cons.IH)
qed

lemma status_merge_search:
  "status (merge_search patch (Some d)) = status_after (status d) (patch_statuses patch)"
  by (simp add: merge_search_def status_fold_fields)

lemma status_after_op:
  assumes "lead_op R b" "map_of (searches w) k = Some d"
  shows "\<exists>d'. map_of (searches (apply_batch_op b w)) k = Some d'
     \<and> status d' = status_after (status d) (op_statuses k b)"
proof (cases b)
  case (MergeSearch k' patch)
  with assms(2) show ?thesis by (auto simp: status_merge_search)
next
  case (Delete ref)
  with assms(1) show ?thesis by simp
qed (use assms(2) in simp_all)

lemma status_after_ops:
  "list_all (lead_op R) ops \<Longrightarrow> map_of (searches w) k = Some d \<Longrightarrow>
     \<exists>d'. map_of (searches (fold apply_batch_op ops w)) k = Some d'
       \<and> status d' = status_after (status d) (concat (map (op_statuses k) ops))"
proof (induction ops arbitrary: w d)
  case Nil
  then show ?case by simp
next
  case (Cons b ops)
  then have b: "lead_op R b" and rest: "list_all (lead_op R) ops" by simp_all
  from status_after_op [OF b Cons.prems(2)] obtain d1 where
    d1: "map_of (searches (apply_batch_op b w)) k = Some d1"
      "status d1 = status_after (status d) (op_statuses k b)"
    by blast
  from Cons.IH [OF rest d1(1)] d1(2) show ?case by simp
qed

lemma status_after_effect:
  assumes "finalizing R e \<or> enriching e" "map_of (searches w) k = Some d"
  shows "\<exists>d'. map_of (searches (apply_effect e w)) k = Some d'
     \<and> status d' = status_after (status d) (effect_statuses k e)"
proof (cases e)
  case (SearchSet k' patch)
  with assms(2) show ?thesis by (auto simp: status_merge_search)
next
  case (BatchCommit ops)
  with assms(1) have "list_all (lead_op R) ops" by simp
  from status_after_ops [OF this assms(2)] show ?thesis by (simp add: BatchCommit)
qed (use assms in simp_all)

lemma status_after_replay:
  "list_all (\<lambda>e. finalizing R e \<or> enriching e) js \<Longrightarrow> map_of (searches w) k = Some d \<Longrightarrow>
     \<exists>d'. map_of (searches (replay js w)) k = Some d'
       \<and> status d' = status_after (status d) (status_writes k js)"
proof (induction js arbitrary: w d)
  case Nil
  then show ?case by (simp add: replay_def)
next
  case (Cons e js)
  then have e: "finalizing R e \<or> enriching e"
    and rest: "list_all (\<lambda>e. finalizing R e \<or> enriching e) js"
    by simp_all
  from status_after_effect [OF e Cons.prems(2)] obtain d1 where
    d1: "map_of (searches (apply_effect e w)) k = Some d1"
      "status d1 = status_after (status d) (effect_statuses k e)"
    by blast
  have "replay (e # js) w = replay js (apply_effect e w)" by (simp add: replay_def)
  with Cons.IH [OF rest d1(1)] d1(2) show ?case by simp
qed

lemma emits_both:
  assumes "emits Q m" "emits Q' m"
  shows "emits (\<lambda>js r. Q js r \<and> Q' js r) m"
  unfolding emits_def
proof (intro allI impI)
  fix w r w' assume run: "m w = (r, w')"
  from emitsD [OF assms(1) run] obtain js where
    js: "journal w' = journal w @ js" "same_store w' (replay js w)" "Q js r"
    by blast
  from emitsD [OF assms(2) run] obtain js' where
    js': "journal w' = journal w @ js'" "Q' js' r"
    by blast
  from js(1) js'(1) have "js' = js" by simp
  with js js'(2) show "\<exists>js. journal w' = journal w @ js \<and> same_store w' (replay js w)
      \<and> Q js r \<and> Q' js r"
    by blast
qed

lemma forward_from_queued:
  "ss \<in> {[], [Failed], [Running], [Running, Completed], [Running, Failed]} \<Longrightarrow>
     forward_chain Queued ss"
  by auto

definition world_of :: "SearchData \<Rightarrow> ProfileData \<Rightarrow> World" where
  "world_of search profile =
     \<lparr> profiles = [''u1'' \<mapsto> profile], searches = [(''s1'', search)], leads = [],
       subscriptions = Map.empty, identities = [''u1'' \<mapsto> False], faults = [],
       journal = [] \<rparr>"

definition search_done :: SearchData where
  "search_done = search_s1\<lparr>status := Some Completed, total_results := Some 7\<rparr>"

lemma world_of_facts:
  "faults (world_of s p) = []" "map_of (searches (world_of s p)) ''s1'' = Some s"
  "profiles (world_of s p) (uid user_u1) = Some p"
  "journal (world_of s p) = []" "leads (world_of s p) = []"
  by (simp_all add: world_of_def user_u1_def)

lemma run_apify_search_demo_final:
  assumes "faults w = []" "searchId \<noteq> []" "map_of (searches w) searchId = Some search"
    "user_id search = Some (uid user)" "profiles w (uid user) = Some profile"
    "is_suspended profile \<noteq> Some True" "leadsUsed_of profile < leadsLimit_of profile"
    "\<not> truthy (APIFY_TOKEN env)"
  shows "map_option status (map_of (searches (snd (run_apify_search env user (Some searchId) w)))
            searchId) = Some (Some Completed)
     \<and> map_option total_results
          (map_of (searches (snd (run_apify_search env user (Some searchId) w))) searchId)
        = Some (Some (int (length (buildMockLeads (math_random env) search))))
     \<and> take 1 (drop (length (journal w))
          (journal (snd (run_apify_search env user (Some searchId) w))))
        = [SearchSet searchId (running_patch env)]"
proof -
  let ?mock = "buildMockLeads (math_random env) search"
  let ?w1 = "did (SearchSet searchId (running_patch env)) w"
  have w1: "faults ?w1 = []" using assms(1) by simp
  from writeLeadsAndFinalize_runs [OF w1, of env "uid user" searchId ?mock "leadsUsed_of profile"]
  obtain v where v: "writeLeadsAndFinalize env (uid user) searchId ?mock (leadsUsed_of profile) ?w1
        = (Inr (), v)"
    "searches v = put_search searchId
        (merge_search (completed_patch env (length ?mock)) (map_of (searches ?w1) searchId))
        (searches ?w1)"
    "\<exists>js. journal v = journal ?w1 @ js \<and> list_all (finalizing (\<lambda>l. True)) js"
    by metis
  from v(1) assms(8) have "proceed env user searchId search profile ?w1
      = (Inr (RunResponse Demo (length ?mock)), v)"
    by (simp add: proceed_def io_catch_def io_bind_def io_return_def)
  with run_apify_search_guard [OF assms(1-5), of env] assms(6,7)
  have run: "snd (run_apify_search env user (Some searchId) w) = v" by simp
  from v(3) obtain js where "journal v = journal w @ SearchSet searchId (running_patch env) # js"
    by auto
  then have "take 1 (drop (length (journal w)) (journal v))
      = [SearchSet searchId (running_patch env)]"
    by simp
  moreover have "map_of (searches v) searchId = Some
      (merge_search (completed_patch env (length ?mock)) (map_of (searches ?w1) searchId))"
    by (simp add: v(2))
  ultimately show ?thesis unfolding run by (simp add: merge_completed)
qed

text \<open>
  Claim C3 as the code has it. In every invocation, whatever status the Search has when
  it starts and whichever calls fail, the handler answers, and the status values it writes
  to a Search are, in order, one of: none; failed; running; running then completed; running
  then failed. The Search ends with the last value written and keeps its status when none
  is. So from queued the status moves only along queued to running, running to completed,
  running to failed and queued to failed.
\<close>

theorem status_writes_of_one_invocation:
  assumes "run_apify_search env user requested_id w = (r, w')"
  shows "\<exists>js. journal w' = journal w @ js \<and> \<not> isl r
     \<and> status_writes k js \<in> {[], [Failed], [Running], [Running, Completed], [Running, Failed]}
     \<and> forward_chain Queued (status_writes k js)
     \<and> (\<forall>d. map_of (searches w) k = Some d \<longrightarrow>
           (\<exists>d'. map_of (searches w') k = Some d'
              \<and> status d' = status_after (status d) (status_writes k js)))"
proof -
  have "emits (\<lambda>js r. handled k js r \<and> list_all (\<lambda>e. finalizing (\<lambda>l. True) e \<or> enriching e) js)
      (run_apify_search env user requested_id)"
    using emits_run_apify_search only_run_apify_search [unfolded only_def]
    by (rule emits_both)
  from emitsD [OF this assms] obtain js where
    js: "journal w' = journal w @ js" "same_store w' (replay js w)" "handled k js r"
      "list_all (\<lambda>e. finalizing (\<lambda>l. True) e \<or> enriching e) js"
    by blast
  from js(3) have five: "\<not> isl r"
    "status_writes k js \<in> {[], [Failed], [Running], [Running, Completed], [Running, Failed]}"
    by (simp_all add: handled_def)
  have "\<forall>d. map_of (searches w) k = Some d \<longrightarrow>
           (\<exists>d'. map_of (searches w') k = Some d'
              \<and> status d' = status_after (status d) (status_writes k js))"
  proof (intro allI impI)
    fix d assume "map_of (searches w) k = Some d"
    from status_after_replay [OF js(4) this] js(2)
    show "\<exists>d'. map_of (searches w') k = Some d'
              \<and> status d' = status_after (status d) (status_writes k js)"
      by (simp add: same_store_def)
  qed
  with js(1) five forward_from_queued [OF five(2)] show ?thesis by blast
qed

theorem status_writes_of_one_invocation_witness:
  "status search_s1 = Some Queued
   \<and> (\<exists>js. journal (snd (run_apify_search env_demo user_u1 (Some ''s1'')
                (world_of search_s1 profile_u1))) = js
         \<and> status_writes ''s1'' js = [Running, Completed]
         \<and> forward_chain Queued (status_writes ''s1'' js))
   \<and> map_option status (map_of (searches (snd (run_apify_search env_demo user_u1 (Some ''s1'')
                (world_of search_s1 profile_u1)))) ''s1'') = Some (Some Completed)"
proof -
  let ?w = "world_of search_s1 profile_u1"
  let ?run = "run_apify_search env_demo user_u1 (Some ''s1'') ?w"
  have name: "''s1'' \<noteq> []" by simp
  have p: "is_suspended profile_u1 \<noteq> Some True" "leadsUsed_of profile_u1 < leadsLimit_of profile_u1"
    by (simp_all add: profile_u1_def leadsUsed_of_def leadsLimit_of_def)
  have s: "user_id search_s1 = Some (uid user_u1)" "status search_s1 = Some Queued"
    by (simp_all add: search_s1_def user_u1_def)
  have demo: "\<not> truthy (APIFY_TOKEN env_demo)" by (simp add: env_demo_def truthy_def)
  from run_apify_search_demo_final [OF world_of_facts(1) name world_of_facts(2) s(1)
      world_of_facts(3) p demo]
  have final: "map_option status (map_of (searches (snd ?run)) ''s1'') = Some (Some Completed)"
    by simp
  from status_writes_of_one_invocation [OF prod.collapse [symmetric], of env_demo user_u1
      "Some ''s1''" ?w "''s1''"]
  obtain js where js: "journal (snd ?run) = journal ?w @ js"
    "status_writes ''s1'' js \<in> {[], [Failed], [Running], [Running, Completed], [Running, Failed]}"
    "forward_chain Queued (status_writes ''s1'' js)"
    "\<forall>d. map_of (searches ?w) ''s1'' = Some d \<longrightarrow>
           (\<exists>d'. map_of (searches (snd ?run)) ''s1'' = Some d'
              \<and> status d' = status_after (status d) (status_writes ''s1'' js))"
    by blast
  from js(4) world_of_facts(2) obtain d' where "map_of (searches (snd ?run)) ''s1'' = Some d'"
    "status d' = status_after (status search_s1) (status_writes ''s1'' js)"
    by blast
  with final s(2) have "status_after (Some Queued) (status_writes ''s1'' js) = Some Completed"
    by simp
  with js(2) have "status_writes ''s1'' js = [Running, Completed]" by auto
  with js(1,3) have "journal (snd ?run) = js \<and> status_writes ''s1'' js = [Running, Completed]
      \<and> forward_chain Queued (status_writes ''s1'' js)"
    by (simp add: world_of_facts)
  then have "\<exists>js. journal (snd ?run) = js \<and> status_writes ''s1'' js = [Running, Completed]
      \<and> forward_chain Queued (status_writes ''s1'' js)" ..
  with s(2) final show ?thesis by blast
qed

theorem completed_search_runs_again_counterexample:
  "status search_done = Some Completed \<and> total_results search_done = Some 7
   \<and> take 1 (journal (snd (run_apify_search env_demo user_u1 (Some ''s1'')
        (world_of search_done profile_u1)))) = [SearchSet ''s1'' (running_patch env_demo)]
   \<and> \<not> allowed Completed Running
   \<and> map_option total_results
        (map_of (searches (snd (run_apify_search env_demo user_u1 (Some ''s1'')
           (world_of search_done profile_u1)))) ''s1'') = Some (Some 2)"
proof -
  let ?w = "world_of search_done profile_u1"
  have name: "''s1'' \<noteq> []" by simp
  have p: "is_suspended profile_u1 \<noteq> Some True" "leadsUsed_of profile_u1 < leadsLimit_of profile_u1"
    by (simp_all add: profile_u1_def leadsUsed_of_def leadsLimit_of_def)
  have s: "user_id search_done = Some (uid user_u1)" "status search_done = Some Completed"
    "total_results search_done = Some 7"
    by (simp_all add: search_done_def search_s1_def user_u1_def)
  have demo: "\<not> truthy (APIFY_TOKEN env_demo)" by (simp add: env_demo_def truthy_def)
  have two: "length (buildMockLeads (math_random env_demo) search_done) = 2"
    by (simp add: length_buildMockLeads search_done_def search_s1_def)
  from run_apify_search_demo_final [OF world_of_facts(1) name world_of_facts(2) s(1)
      world_of_facts(3) p demo]
  show ?thesis by (simp add: two s world_of_facts)
qed

section \<open>Enrichment against stored emails\<close>

definition lead_a :: LeadPayload where
  "lead_a = lead_x\<lparr>business_name := Some ''Cafe A'', email := Some ''a@b.com''\<rparr>"

definition page_c_d :: string where
  "page_c_d = ''<p>mail: c@d.com</p>''"

definition env_page :: Env where
  "env_page = env_live\<lparr>site_html :=
     (\<lambda>url. if url = ''https://x.example'' then Some page_c_d else None)\<rparr>"

definition world_two_leads :: World where
  "world_two_leads =
     (world_of search_s1 (profile_u1\<lparr>plan := Some Growth\<rparr>))
       \<lparr>leads := [(1, lead_doc env_page ''u1'' ''s1'' lead_a),
                 (2, lead_doc env_page ''u1'' ''s1'' lead_x)]\<rparr>"

definition stored_emails :: "World \<Rightarrow> (nat \<times> string option) list" where
  "stored_emails w = map (\<lambda>(i, d). (i, email (lead d))) (leads w)"

lemma page_email: "match_email page_c_d = Some ''c@d.com''"
  by code_simp

text \<open>
  Claim C6 on the code. Two leads of one search share a website; the first is stored with
  the email \<^verbatim>\<open>a@b.com\<close>, the second has none. The pass takes the second as its only
  candidate, finds \<^verbatim>\<open>c@d.com\<close> on the page, looks the website up, gets the first lead and
  writes the address there: the stored email \<^verbatim>\<open>a@b.com\<close> becomes \<^verbatim>\<open>c@d.com\<close>, and the
  candidate stays without an email.
\<close>

theorem enrichment_overwrites_stored_email:
  "stored_emails world_two_leads = [(1, Some ''a@b.com''), (2, None)]
   \<and> filter (\<lambda>l. truthy (website l) \<and> \<not> truthy (email l)) [lead_a, lead_x] = [lead_x]
   \<and> stored_emails (snd (maybeEnrichEmails env_page Growth ''s1'' [lead_a, lead_x]
        world_two_leads)) = [(1, Some ''c@d.com''), (2, None)]"
  by (simp add: stored_emails_def world_two_leads_def world_of_def lead_a_def lead_x_def
      lead_doc_def env_page_def env_live_def truthy_def maybeEnrichEmails_def enrich_one_def
      fetch_text_def leads_of_search_site_def db_read_def next_fault_def perform_def
      io_bind_def io_return_def io_ignore_errors_def page_email set_lead_email_def)

section \<open>The account lifecycle manager\<close>

datatype Collection = LeadsCollection | SearchesCollection

text \<open>The documents of a collection whose \<^verbatim>\<open>user_id\<close> is the given one.\<close>

fun owned_refs :: "Collection \<Rightarrow> string \<Rightarrow> World \<Rightarrow> DocRef list" where
  "owned_refs LeadsCollection userId w =
     map (\<lambda>(i, d). LeadRef i) (filter (\<lambda>(i, d). lead_user_id d = userId) (leads w))"
| "owned_refs SearchesCollection userId w =
     map (\<lambda>(k, d). SearchRef k) (filter (\<lambda>(k, d). user_id d = Some userId) (searches w))"

definition docs_of_user :: "Collection \<Rightarrow> string \<Rightarrow> nat \<Rightarrow> DocRef list io" where
  "docs_of_user c userId limit = db_read (\<lambda>w. take limit (owned_refs c userId w))"

lemma owned_refs_cong:
  "same_store a b \<Longrightarrow> owned_refs c userId a = owned_refs c userId b"
  by (cases c) (simp_all add: same_store_def)

lemma fold_delete_refs:
  "leads (fold apply_batch_op (map Delete refs) w)
     = filter (\<lambda>(i, d). LeadRef i \<notin> set refs) (leads w)
   \<and> searches (fold apply_batch_op (map Delete refs) w)
     = filter (\<lambda>(k, d). SearchRef k \<notin> set refs) (searches w)
   \<and> profiles (fold apply_batch_op (map Delete refs) w) = profiles w
   \<and> subscriptions (fold apply_batch_op (map Delete refs) w) = subscriptions w
   \<and> identities (fold apply_batch_op (map Delete refs) w) = identities w"
proof (induction refs arbitrary: w)
  case Nil
  show ?case by simp
next
  case (Cons ref refs)
  show ?case
  proof (cases ref)
    case (LeadRef i)
    have "filter (\<lambda>(j, d). LeadRef j \<notin> set refs) (filter (\<lambda>(j, d). j \<noteq> i) (leads w))
        = filter (\<lambda>(j, d). LeadRef j \<notin> set (LeadRef i # refs)) (leads w)"
      by (induction "leads w") (auto simp: split_def intro: filter_cong)
    then show ?thesis using Cons [of "apply_batch_op (Delete ref) w"] by (simp add: LeadRef)
  next
    case (SearchRef k)
    have "filter (\<lambda>(j, d). SearchRef j \<notin> set refs) (filter (\<lambda>(j, d). j \<noteq> k) (searches w))
        = filter (\<lambda>(j, d). SearchRef j \<notin> set (SearchRef k # refs)) (searches w)"
      by (induction "searches w") (auto simp: split_def intro: filter_cong)
    then show ?thesis using Cons [of "apply_batch_op (Delete ref) w"] by (simp add: SearchRef)
  qed
qed

lemma owned_refs_after_delete:
  "owned_refs c userId (fold apply_batch_op (map Delete refs) w)
     = filter (\<lambda>r. r \<notin> set refs) (owned_refs c userId w)"
  by (cases c) (simp_all add: fold_delete_refs filter_map comp_def split_def conj_commute)

lemma owned_refs_shrink:
  assumes "refs = take n (owned_refs c userId w)" "refs \<noteq> []"
  shows "length (owned_refs c userId (fold apply_batch_op (map Delete refs) w))
     < length (owned_refs c userId w)"
proof -
  from assms(2) obtain r where r: "r \<in> set refs" by (cases refs) auto
  with assms(1) have "r \<in> set (owned_refs c userId w)"
    by (auto dest: in_set_takeD)
  with r show ?thesis
    unfolding owned_refs_after_delete by (intro length_filter_less [of r]) simp_all
qed

text \<open>
  \<^verbatim>\<open>deleteByUserId\<close>: the loop queries up to 400 documents of the user, deletes them in one
  batch, and goes on while the page was full.
\<close>

function deleteByUserId :: "Collection \<Rightarrow> string \<Rightarrow> unit io" where
  "deleteByUserId c userId w =
     (case docs_of_user c userId 400 w of
        (Inl msg, w1) \<Rightarrow> (Inl msg, w1)
      | (Inr snapshot, w1) \<Rightarrow>
          if snapshot = [] then (Inr (), w1)
          else (case perform (BatchCommit (map Delete snapshot)) w1 of
                  (Inl msg, w2) \<Rightarrow> (Inl msg, w2)
                | (Inr u, w2) \<Rightarrow>
                    if length snapshot < 400 then (Inr (), w2)
                    else deleteByUserId c userId w2))"
  by pat_completeness auto
termination
proof (relation "measure (\<lambda>(c, userId, w). length (owned_refs c userId w))", goal_cases)
  case 1
  show ?case by simp
next
  case (2 c userId w r1 w1 snapshot r2 w2 u)
  from 2(1) 2(2) have read: "docs_of_user c userId 400 w = (Inr snapshot, w1)" by simp
  from db_read_cases [OF read [unfolded docs_of_user_def]]
  have w1: "w1 = pop_fault w" and snap: "snapshot = take 400 (owned_refs c userId (pop_fault w))"
    by simp_all
  have same: "owned_refs c userId (pop_fault w) = owned_refs c userId w"
    by (rule owned_refs_cong) simp
  from 2(4) 2(5) have "perform (BatchCommit (map Delete snapshot)) w1 = (Inr (), w2)" by simp
  from perform_cases [OF this]
  have w2: "w2 = (apply_effect (BatchCommit (map Delete snapshot)) (pop_fault w1))
      \<lparr>journal := journal w1 @ [BatchCommit (map Delete snapshot)]\<rparr>"
    by simp
  have "same_store w2 (fold apply_batch_op (map Delete snapshot) w)"
    unfolding w2 w1 by (simp add: same_store_def pop_fault_def fold_delete_refs)
  then have "owned_refs c userId w2
      = owned_refs c userId (fold apply_batch_op (map Delete snapshot) w)"
    by (rule owned_refs_cong)
  with owned_refs_shrink [of snapshot 400 c userId w] snap same 2(3)
  show ?case by simp
qed

declare deleteByUserId.simps [simp del]

text \<open>A batch of at most 400 deletions in one collection.\<close>

fun is_delete :: "Collection \<Rightarrow> BatchOp \<Rightarrow> bool" where
  "is_delete LeadsCollection (Delete (LeadRef i)) = True"
| "is_delete SearchesCollection (Delete (SearchRef k)) = True"
| "is_delete c b = False"

fun delete_batch :: "Collection \<Rightarrow> Effect \<Rightarrow> bool" where
  "delete_batch c (BatchCommit ops) = (ops \<noteq> [] \<and> length ops \<le> 400 \<and> list_all (is_delete c) ops)"
| "delete_batch c e = False"

lemma owned_refs_kind:
  "r \<in> set (owned_refs c userId w) \<Longrightarrow> is_delete c (Delete r)"
  by (cases c) auto

lemma delete_batch_snapshot:
  assumes "snapshot = take 400 (owned_refs c userId w)" "snapshot \<noteq> []"
  shows "delete_batch c (BatchCommit (map Delete snapshot))"
proof -
  have "list_all (is_delete c) (map Delete snapshot)"
    unfolding list_all_iff using assms(1) by (auto dest: in_set_takeD owned_refs_kind)
  with assms show ?thesis by simp
qed

lemma other_collection_kept:
  assumes "\<forall>r \<in> set refs. is_delete c (Delete r)"
  shows "(c = LeadsCollection \<longrightarrow>
            searches (fold apply_batch_op (map Delete refs) w) = searches w)
       \<and> (c = SearchesCollection \<longrightarrow>
            leads (fold apply_batch_op (map Delete refs) w) = leads w)"
proof (cases c)
  case LeadsCollection
  with assms have "\<forall>k. SearchRef k \<notin> set refs" by auto
  with LeadsCollection show ?thesis by (simp add: fold_delete_refs)
next
  case SearchesCollection
  with assms have "\<forall>i. LeadRef i \<notin> set refs" by auto
  with SearchesCollection show ?thesis by (simp add: fold_delete_refs)
qed

lemma did_delete [simp]:
  "leads (did (BatchCommit (map Delete refs)) w) = filter (\<lambda>(i, d). LeadRef i \<notin> set refs) (leads w)"
  "searches (did (BatchCommit (map Delete refs)) w)
     = filter (\<lambda>(k, d). SearchRef k \<notin> set refs) (searches w)"
  "profiles (did (BatchCommit (map Delete refs)) w) = profiles w"
  "subscriptions (did (BatchCommit (map Delete refs)) w) = subscriptions w"
  "identities (did (BatchCommit (map Delete refs)) w) = identities w"
  by (simp_all add: did_def fold_delete_refs)

lemma owned_refs_did_delete:
  "owned_refs c userId (did (BatchCommit (map Delete refs)) w)
     = filter (\<lambda>r. r \<notin> set refs) (owned_refs c userId w)"
proof -
  have "same_store (did (BatchCommit (map Delete refs)) w)
      (fold apply_batch_op (map Delete refs) w)"
    by (simp add: same_store_def fold_delete_refs)
  from owned_refs_cong [OF this] show ?thesis by (simp add: owned_refs_after_delete)
qed

lemma deleteByUserId_runs:
  "faults w = [] \<Longrightarrow>
     \<exists>w' js. deleteByUserId c userId w = (Inr (), w') \<and> faults w' = []
       \<and> journal w' = journal w @ js \<and> list_all (delete_batch c) js
       \<and> owned_refs c userId w' = []
       \<and> profiles w' = profiles w \<and> subscriptions w' = subscriptions w
       \<and> identities w' = identities w
       \<and> (c = LeadsCollection \<longrightarrow> searches w' = searches w)
       \<and> (c = SearchesCollection \<longrightarrow> leads w' = leads w)"
proof (induction "length (owned_refs c userId w)" arbitrary: w rule: less_induct)
  case less
  define snapshot where "snapshot = take 400 (owned_refs c userId w)"
  define e where "e = BatchCommit (map Delete snapshot)"
  have read: "docs_of_user c userId 400 w = (Inr snapshot, w)"
    using less.prems by (simp add: docs_of_user_def db_read_ok snapshot_def)
  have unfold: "deleteByUserId c userId w =
      (if snapshot = [] then (Inr (), w)
       else (case perform e w of
               (Inl msg, w2) \<Rightarrow> (Inl msg, w2)
             | (Inr u, w2) \<Rightarrow>
                 if length snapshot < 400 then (Inr (), w2)
                 else deleteByUserId c userId w2))"
    by (subst deleteByUserId.simps) (simp add: read e_def)
  show ?case
  proof (cases "snapshot = []")
    case True
    then have "deleteByUserId c userId w = (Inr (), w)" by (simp add: unfold)
    moreover from True have "owned_refs c userId w = []" by (simp add: snapshot_def)
    ultimately have "deleteByUserId c userId w = (Inr (), w) \<and> faults w = []
       \<and> journal w = journal w @ [] \<and> list_all (delete_batch c) []
       \<and> owned_refs c userId w = []
       \<and> profiles w = profiles w \<and> subscriptions w = subscriptions w
       \<and> identities w = identities w
       \<and> (c = LeadsCollection \<longrightarrow> searches w = searches w)
       \<and> (c = SearchesCollection \<longrightarrow> leads w = leads w)"
      using less.prems by simp
    then show ?thesis by blast
  next
    case False
    define w2 where "w2 = did e w"
    have commit: "perform e w = (Inr (), w2)"
      unfolding w2_def using less.prems by (rule perform_did)
    have batch: "delete_batch c e"
      unfolding e_def using snapshot_def False by (rule delete_batch_snapshot)
    have kinds: "\<forall>r \<in> set snapshot. is_delete c (Delete r)"
      unfolding snapshot_def by (auto dest: in_set_takeD owned_refs_kind)
    have other: "(c = LeadsCollection \<longrightarrow> searches w2 = searches w)
        \<and> (c = SearchesCollection \<longrightarrow> leads w2 = leads w)"
      using other_collection_kept [OF kinds, of w] by (simp add: w2_def e_def fold_delete_refs)
    have w2: "faults w2 = []" "journal w2 = journal w @ [e]" "profiles w2 = profiles w"
      "subscriptions w2 = subscriptions w" "identities w2 = identities w"
      using less.prems by (simp_all add: w2_def e_def)
    have owned2: "owned_refs c userId w2
        = filter (\<lambda>r. r \<notin> set snapshot) (owned_refs c userId w)"
      unfolding w2_def e_def by (rule owned_refs_did_delete)
    show ?thesis
    proof (cases "length snapshot < 400")
      case True
      then have "snapshot = owned_refs c userId w" by (simp add: snapshot_def)
      with owned2 have gone: "owned_refs c userId w2 = []" by simp
      have "deleteByUserId c userId w = (Inr (), w2)"
        using False True by (simp add: unfold commit)
      with gone w2 batch other have "deleteByUserId c userId w = (Inr (), w2) \<and> faults w2 = []
         \<and> journal w2 = journal w @ [e] \<and> list_all (delete_batch c) [e]
         \<and> owned_refs c userId w2 = []
         \<and> profiles w2 = profiles w \<and> subscriptions w2 = subscriptions w
         \<and> identities w2 = identities w
         \<and> (c = LeadsCollection \<longrightarrow> searches w2 = searches w)
         \<and> (c = SearchesCollection \<longrightarrow> leads w2 = leads w)"
        by simp
      then show ?thesis by blast
    next
      case full: False
      have less': "length (owned_refs c userId w2) < length (owned_refs c userId w)"
      proof -
        from False obtain r where r: "r \<in> set snapshot" by (cases snapshot) auto
        then have "r \<in> set (owned_refs c userId w)"
          unfolding snapshot_def by (auto dest: in_set_takeD)
        with r show ?thesis
          unfolding owned2 by (intro length_filter_less [of r]) simp_all
      qed
      from less.hyps [OF less' w2(1)] obtain w' js where
        rest: "deleteByUserId c userId w2 = (Inr (), w')" "faults w' = []"
          "journal w' = journal w2 @ js" "list_all (delete_batch c) js"
          "owned_refs c userId w' = []"
          "profiles w' = profiles w2" "subscriptions w' = subscriptions w2"
          "identities w' = identities w2"
          "c = LeadsCollection \<longrightarrow> searches w' = searches w2"
          "c = SearchesCollection \<longrightarrow> leads w' = leads w2"
        by blast
      have "deleteByUserId c userId w = (Inr (), w')"
        using False full by (simp add: unfold commit rest(1))
      with rest w2 batch other have "deleteByUserId c userId w = (Inr (), w') \<and> faults w' = []
         \<and> journal w' = journal w @ (e # js) \<and> list_all (delete_batch c) (e # js)
         \<and> owned_refs c userId w' = []
         \<and> profiles w' = profiles w \<and> subscriptions w' = subscriptions w
         \<and> identities w' = identities w
         \<and> (c = LeadsCollection \<longrightarrow> searches w' = searches w)
         \<and> (c = SearchesCollection \<longrightarrow> leads w' = leads w)"
        by simp
      then show ?thesis by blast
    qed
  qed
qed

text \<open>
  The handler of \<^verbatim>\<open>POST /api/superadmin-users\<close>, from the point where the requester has
  been verified as the superadmin. The fields of the request body: \<open>action\<close>, the target
  \<^verbatim>\<open>user_id\<close> and the \<^verbatim>\<open>plan\<close>, each \<open>None\<close> when missing. The action
  \<^verbatim>\<open>list_users\<close> only reads; the list it answers with is not part of this model.
\<close>

record SuperadminInput =
  action :: "string option"
  target_user_id :: "string option"
  requested_plan :: "PlanType option"

fun PLAN_LIMITS :: "PlanType \<Rightarrow> int" where
  "PLAN_LIMITS Starter = 2000"
| "PLAN_LIMITS Growth = 5000"
| "PLAN_LIMITS Pro = 15000"

text \<open>
  \<^verbatim>\<open>adminAuth.updateUser\<close> and \<^verbatim>\<open>adminAuth.deleteUser\<close> throw when the identity service
  has no such account.
\<close>

definition no_user_record :: string where
  "no_user_record = ''There is no user record corresponding to the provided identifier.''"

definition auth_call :: "string \<Rightarrow> Effect \<Rightarrow> unit io" where
  "auth_call userId e w =
     (if identities w userId = None
      then (case next_fault w of
              (Some msg, w') \<Rightarrow> (Inl msg, w')
            | (None, w') \<Rightarrow> (Inl no_user_record, w'))
      else perform e w)"

definition superadmin_try ::
  "Env \<Rightarrow> DecodedUser \<Rightarrow> SuperadminInput \<Rightarrow> string \<Rightarrow> Response io" where
  "superadmin_try env requester payload act =
     (if act = ''list_users''
      then io_bind (db_read (\<lambda>w. ())) (\<lambda>_. io_return UsersResponse)
      else (case target_user_id payload of
              None \<Rightarrow> io_return (SendError 400 ''Valid user_id is required'')
            | Some userId \<Rightarrow>
                if userId = [] then io_return (SendError 400 ''Valid user_id is required'')
                else if act = ''set_plan''
                then (case requested_plan payload of
                        None \<Rightarrow> io_return (SendError 400 ''Valid plan is required'')
                      | Some pl \<Rightarrow>
                          io_bind
                            (perform (ProfileSet userId
                               [PlanField pl, LeadsLimit (PLAN_LIMITS pl),
                                ProfileUpdatedAt (now env)]))
                            (\<lambda>_. io_bind
                               (perform (SubscriptionSet userId
                                  \<lparr> sub_user_id = userId, sub_plan = pl,
                                    sub_status = ''active'', sub_updated_at = now env,
                                    sub_created_at = now env \<rparr>))
                            (\<lambda>_. io_return SuccessResponse)))
                else if act = ''suspend_user''
                then (if userId = uid requester
                      then io_return (SendError 400 ''You cannot suspend your own account'')
                      else io_bind
                             (perform (ProfileSet userId
                                [IsSuspended True, SuspendedAt (Some (now env)),
                                 ProfileUpdatedAt (now env)]))
                             (\<lambda>_. io_bind (auth_call userId (AuthUpdateUser userId True))
                             (\<lambda>_. io_return SuccessResponse)))
                else if act = ''restore_user''
                then io_bind
                       (perform (ProfileSet userId
                          [IsSuspended False, SuspendedAt None, ProfileUpdatedAt (now env)]))
                       (\<lambda>_. io_bind (auth_call userId (AuthUpdateUser userId False))
                       (\<lambda>_. io_return SuccessResponse))
                else if act = ''delete_user''
                then (if userId = uid requester
                      then io_return (SendError 400 ''You cannot delete your own account'')
                      else io_bind (deleteByUserId LeadsCollection userId)
                             (\<lambda>_. io_bind (deleteByUserId SearchesCollection userId)
                             (\<lambda>_. io_bind (io_ignore_errors (perform (SubscriptionDelete userId)))
                             (\<lambda>_. io_bind (io_ignore_errors (perform (ProfileDelete userId)))
                             (\<lambda>_. io_bind (auth_call userId (AuthDeleteUser userId))
                             (\<lambda>_. io_return SuccessResponse))))))
                else io_return (SendError 400 ''Unknown action'')))"

definition superadmin_users :: "Env \<Rightarrow> DecodedUser \<Rightarrow> SuperadminInput \<Rightarrow> Response io" where
  "superadmin_users env requester payload =
     (case action payload of
        None \<Rightarrow> io_return (SendError 400 ''action is required'')
      | Some act \<Rightarrow>
          if act = [] then io_return (SendError 400 ''action is required'')
          else io_catch (superadmin_try env requester payload act)
                 (\<lambda>message. io_return (SendError 500 message)))"

subsection \<open>Deleting and suspending accounts\<close>

lemma io_ignore_errors_did:
  "faults w = [] \<Longrightarrow> io_ignore_errors (perform e) w = (Inr (), did e w)"
  by (simp add: io_ignore_errors_def perform_did)

lemma auth_call_did:
  "faults w = [] \<Longrightarrow> auth_call userId e w =
     (if identities w userId = None then (Inl no_user_record, w) else (Inr (), did e w))"
  by (simp add: auth_call_def perform_did next_fault_def)

lemma did_account [simp]:
  "subscriptions (did (SubscriptionDelete k) w) = (subscriptions w)(k := None)"
  "profiles (did (SubscriptionDelete k) w) = profiles w"
  "leads (did (SubscriptionDelete k) w) = leads w"
  "searches (did (SubscriptionDelete k) w) = searches w"
  "identities (did (SubscriptionDelete k) w) = identities w"
  "profiles (did (ProfileDelete k) w) = (profiles w)(k := None)"
  "subscriptions (did (ProfileDelete k) w) = subscriptions w"
  "leads (did (ProfileDelete k) w) = leads w"
  "searches (did (ProfileDelete k) w) = searches w"
  "identities (did (ProfileDelete k) w) = identities w"
  "identities (did (AuthDeleteUser k) w) = (identities w)(k := None)"
  "profiles (did (AuthDeleteUser k) w) = profiles w"
  "subscriptions (did (AuthDeleteUser k) w) = subscriptions w"
  "leads (did (AuthDeleteUser k) w) = leads w"
  "searches (did (AuthDeleteUser k) w) = searches w"
  by (simp_all add: did_def)

lemma delete_user_runs:
  assumes "faults w = []" "userId \<noteq> []" "userId \<noteq> uid requester"
    "action payload = Some ''delete_user''" "target_user_id payload = Some userId"
  shows "\<exists>w' ls ss. superadmin_users env requester payload w =
       (Inr (if identities w userId = None then SendError 500 no_user_record
             else SuccessResponse), w')
     \<and> journal w' = journal w @ ls @ ss @ [SubscriptionDelete userId, ProfileDelete userId]
          @ (if identities w userId = None then [] else [AuthDeleteUser userId])
     \<and> list_all (delete_batch LeadsCollection) ls
     \<and> list_all (delete_batch SearchesCollection) ss
     \<and> owned_refs LeadsCollection userId w' = []
     \<and> owned_refs SearchesCollection userId w' = []
     \<and> subscriptions w' userId = None \<and> profiles w' userId = None
     \<and> identities w' userId = None"
proof -
  from deleteByUserId_runs [OF assms(1), of LeadsCollection userId]
  obtain w1 ls where 1: "deleteByUserId LeadsCollection userId w = (Inr (), w1)" "faults w1 = []"
    "journal w1 = journal w @ ls" "list_all (delete_batch LeadsCollection) ls"
    "owned_refs LeadsCollection userId w1 = []" "identities w1 = identities w"
    by blast
  from deleteByUserId_runs [OF 1(2), of SearchesCollection userId]
  obtain w2 ss where 2: "deleteByUserId SearchesCollection userId w1 = (Inr (), w2)"
    "faults w2 = []" "journal w2 = journal w1 @ ss" "list_all (delete_batch SearchesCollection) ss"
    "owned_refs SearchesCollection userId w2 = []" "identities w2 = identities w1"
    "leads w2 = leads w1"
    by blast
  define w3 where "w3 = did (SubscriptionDelete userId) w2"
  define w4 where "w4 = did (ProfileDelete userId) w3"
  define w5 where "w5 = (if identities w userId = None then w4 else did (AuthDeleteUser userId) w4)"
  have f: "faults w3 = []" "faults w4 = []" using 2(2) by (simp_all add: w3_def w4_def)
  have ids: "identities w4 = identities w" using 1(6) 2(6) by (simp add: w3_def w4_def)
  have "superadmin_try env requester payload ''delete_user'' w =
      (if identities w userId = None then Inl no_user_record else Inr SuccessResponse, w5)"
    using assms(2,3,5) 1(1) 2(1) f 2(2) ids
    by (simp add: superadmin_try_def io_bind_def io_return_def io_ignore_errors_did
        auth_call_did w3_def [symmetric] w4_def [symmetric] w5_def)
  then have run: "superadmin_users env requester payload w =
       (Inr (if identities w userId = None then SendError 500 no_user_record
             else SuccessResponse), w5)"
    using assms(4) by (simp add: superadmin_users_def io_catch_def io_return_def)
  have leads5: "leads w5 = leads w1" and searches5: "searches w5 = searches w2"
    using 2(7) by (simp_all add: w5_def w4_def w3_def)
  have "owned_refs LeadsCollection userId w5 = owned_refs LeadsCollection userId w1"
    by (simp add: leads5)
  moreover have "owned_refs SearchesCollection userId w5 = owned_refs SearchesCollection userId w2"
    by (simp add: searches5)
  moreover have "journal w5 = journal w @ ls @ ss @ [SubscriptionDelete userId, ProfileDelete userId]
          @ (if identities w userId = None then [] else [AuthDeleteUser userId])"
    using 1(3) 2(3) by (simp add: w5_def w4_def w3_def)
  moreover have "subscriptions w5 userId = None" "profiles w5 userId = None"
    "identities w5 userId = None"
    using ids by (auto simp: w5_def w4_def w3_def)
  ultimately have "superadmin_users env requester payload w =
       (Inr (if identities w userId = None then SendError 500 no_user_record
             else SuccessResponse), w5)
     \<and> journal w5 = journal w @ ls @ ss @ [SubscriptionDelete userId, ProfileDelete userId]
          @ (if identities w userId = None then [] else [AuthDeleteUser userId])
     \<and> list_all (delete_batch LeadsCollection) ls
     \<and> list_all (delete_batch SearchesCollection) ss
     \<and> owned_refs LeadsCollection userId w5 = []
     \<and> owned_refs SearchesCollection userId w5 = []
     \<and> subscriptions w5 userId = None \<and> profiles w5 userId = None
     \<and> identities w5 userId = None"
    using run 1(4,5) 2(4,5) by simp
  then show ?thesis by (intro exI)
qed

lemma self_target_rejected:
  assumes "uid requester \<noteq> []" "target_user_id payload = Some (uid requester)"
  shows "action payload = Some ''suspend_user'' \<Longrightarrow>
           superadmin_users env requester payload w =
             (Inr (SendError 400 ''You cannot suspend your own account''), w)"
    and "action payload = Some ''delete_user'' \<Longrightarrow>
           superadmin_users env requester payload w =
             (Inr (SendError 400 ''You cannot delete your own account''), w)"
  using assms
  by (simp_all add: superadmin_users_def superadmin_try_def io_catch_def io_return_def)

definition world_admin :: World where
  "world_admin =
     \<lparr> profiles = [''u1'' \<mapsto> profile_u1, ''u2'' \<mapsto> profile_u1],
       searches = [(''s1'', search_s1\<lparr>user_id := Some ''u2''\<rparr>), (''s9'', search_s1)],
       leads = [(1, lead_doc env_demo ''u2'' ''s1'' lead_x),
                (2, lead_doc env_demo ''u1'' ''s9'' lead_x),
                (3, lead_doc env_demo ''u2'' ''s1'' lead_a)],
       subscriptions = Map.empty,
       identities = [''u1'' \<mapsto> False, ''u2'' \<mapsto> False],
       faults = [], journal = [] \<rparr>"

definition request :: "string \<Rightarrow> string \<Rightarrow> SuperadminInput" where
  "request act userId =
     \<lparr> action = Some act, target_user_id = Some userId, requested_plan = None \<rparr>"

lemma owned_refs_empty:
  "owned_refs LeadsCollection userId w = [] \<longleftrightarrow> (\<forall>(i, d) \<in> set (leads w). lead_user_id d \<noteq> userId)"
  "owned_refs SearchesCollection userId w = []
     \<longleftrightarrow> (\<forall>(k, d) \<in> set (searches w). user_id d \<noteq> Some userId)"
  by (auto simp: filter_empty_conv)

text \<open>
  Claim C7. \<^verbatim>\<open>delete_user\<close> on a target other than the requester, with no call failing
  and the target known to the identity service, answers success after these effects in this
  order: batches of at most 400 deletions of the target's leads, batches of at most 400
  deletions of the target's searches, the deletion of the Subscription, of the Profile and
  of the identity; afterwards no lead and no search of the target is left, nor its
  Subscription, Profile and identity. \<^verbatim>\<open>suspend_user\<close> and \<^verbatim>\<open>delete_user\<close> aimed at the
  requester answer 400 and leave the state as it was.
\<close>

theorem delete_user_cascade:
  "(faults w = [] \<and> userId \<noteq> [] \<and> userId \<noteq> uid requester
      \<and> action payload = Some ''delete_user'' \<and> target_user_id payload = Some userId
      \<and> identities w userId \<noteq> None
      \<and> superadmin_users env requester payload w = (r, w')
    \<longrightarrow> r = Inr SuccessResponse
      \<and> (\<exists>ls ss. journal w' = journal w @ ls @ ss
              @ [SubscriptionDelete userId, ProfileDelete userId, AuthDeleteUser userId]
            \<and> list_all (delete_batch LeadsCollection) ls
            \<and> list_all (delete_batch SearchesCollection) ss)
      \<and> owned_refs LeadsCollection userId w' = []
      \<and> owned_refs SearchesCollection userId w' = []
      \<and> (\<forall>(i, d) \<in> set (leads w'). lead_user_id d \<noteq> userId)
      \<and> (\<forall>(k, d) \<in> set (searches w'). user_id d \<noteq> Some userId)
      \<and> subscriptions w' userId = None \<and> profiles w' userId = None
      \<and> identities w' userId = None)
   \<and> (uid requester \<noteq> [] \<and> target_user_id payload = Some (uid requester)
        \<and> action payload = Some ''suspend_user''
      \<longrightarrow> superadmin_users env requester payload w =
            (Inr (SendError 400 ''You cannot suspend your own account''), w))
   \<and> (uid requester \<noteq> [] \<and> target_user_id payload = Some (uid requester)
        \<and> action payload = Some ''delete_user''
      \<longrightarrow> superadmin_users env requester payload w =
            (Inr (SendError 400 ''You cannot delete your own account''), w))"
proof (intro conjI impI)
  assume a: "faults w = [] \<and> userId \<noteq> [] \<and> userId \<noteq> uid requester
      \<and> action payload = Some ''delete_user'' \<and> target_user_id payload = Some userId
      \<and> identities w userId \<noteq> None
      \<and> superadmin_users env requester payload w = (r, w')"
  then have known: "identities w userId \<noteq> None" by simp
  from a delete_user_runs [of w userId requester payload env]
  obtain v ls ss where v: "superadmin_users env requester payload w =
       (Inr (if identities w userId = None then SendError 500 no_user_record
             else SuccessResponse), v)"
    "journal v = journal w @ ls @ ss @ [SubscriptionDelete userId, ProfileDelete userId]
          @ (if identities w userId = None then [] else [AuthDeleteUser userId])"
    "list_all (delete_batch LeadsCollection) ls" "list_all (delete_batch SearchesCollection) ss"
    "owned_refs LeadsCollection userId v = []" "owned_refs SearchesCollection userId v = []"
    "subscriptions v userId = None" "profiles v userId = None" "identities v userId = None"
    by blast
  from v(1) a known have r: "r = Inr SuccessResponse" and w': "w' = v" by simp_all
  show "r = Inr SuccessResponse" by (rule r)
  from v(2,3,4) known have "journal w' = journal w @ ls @ ss
              @ [SubscriptionDelete userId, ProfileDelete userId, AuthDeleteUser userId]
            \<and> list_all (delete_batch LeadsCollection) ls
            \<and> list_all (delete_batch SearchesCollection) ss"
    by (simp add: w')
  then show "\<exists>ls ss. journal w' = journal w @ ls @ ss
              @ [SubscriptionDelete userId, ProfileDelete userId, AuthDeleteUser userId]
            \<and> list_all (delete_batch LeadsCollection) ls
            \<and> list_all (delete_batch SearchesCollection) ss"
    by (intro exI)
  show "owned_refs LeadsCollection userId w' = []" unfolding w' by (rule v(5))
  show "owned_refs SearchesCollection userId w' = []" unfolding w' by (rule v(6))
  show "\<forall>(i, d) \<in> set (leads w'). lead_user_id d \<noteq> userId"
    using v(5) unfolding w' owned_refs_empty .
  show "\<forall>(k, d) \<in> set (searches w'). user_id d \<noteq> Some userId"
    using v(6) unfolding w' owned_refs_empty .
  show "subscriptions w' userId = None" unfolding w' by (rule v(7))
  show "profiles w' userId = None" unfolding w' by (rule v(8))
  show "identities w' userId = None" unfolding w' by (rule v(9))
next
  assume "uid requester \<noteq> [] \<and> target_user_id payload = Some (uid requester)
        \<and> action payload = Some ''suspend_user''"
  then show "superadmin_users env requester payload w =
            (Inr (SendError 400 ''You cannot suspend your own account''), w)"
    by (simp add: self_target_rejected)
next
  assume "uid requester \<noteq> [] \<and> target_user_id payload = Some (uid requester)
        \<and> action payload = Some ''delete_user''"
  then show "superadmin_users env requester payload w =
            (Inr (SendError 400 ''You cannot delete your own account''), w)"
    by (simp add: self_target_rejected)
qed

theorem delete_user_cascade_witness:
  "owned_refs LeadsCollection ''u2'' world_admin = [LeadRef 1, LeadRef 3]
   \<and> owned_refs SearchesCollection ''u2'' world_admin = [SearchRef ''s1'']
   \<and> fst (superadmin_users env_demo user_u1 (request ''delete_user'' ''u2'') world_admin)
       = Inr SuccessResponse
   \<and> owned_refs LeadsCollection ''u2''
        (snd (superadmin_users env_demo user_u1 (request ''delete_user'' ''u2'') world_admin)) = []
   \<and> owned_refs SearchesCollection ''u2''
        (snd (superadmin_users env_demo user_u1 (request ''delete_user'' ''u2'') world_admin)) = []
   \<and> profiles
        (snd (superadmin_users env_demo user_u1 (request ''delete_user'' ''u2'') world_admin))
        ''u2'' = None
   \<and> identities
        (snd (superadmin_users env_demo user_u1 (request ''delete_user'' ''u2'') world_admin))
        ''u2'' = None
   \<and> superadmin_users env_demo user_u1 (request ''suspend_user'' ''u1'') world_admin
       = (Inr (SendError 400 ''You cannot suspend your own account''), world_admin)
   \<and> superadmin_users env_demo user_u1 (request ''delete_user'' ''u1'') world_admin
       = (Inr (SendError 400 ''You cannot delete your own account''), world_admin)"
proof -
  let ?run = "superadmin_users env_demo user_u1 (request ''delete_user'' ''u2'') world_admin"
  have before: "owned_refs LeadsCollection ''u2'' world_admin = [LeadRef 1, LeadRef 3]"
    "owned_refs SearchesCollection ''u2'' world_admin = [SearchRef ''s1'']"
    by (simp_all add: world_admin_def lead_doc_def search_s1_def)
  have hyps: "faults world_admin = [] \<and> ''u2'' \<noteq> [] \<and> ''u2'' \<noteq> uid user_u1
      \<and> action (request ''delete_user'' ''u2'') = Some ''delete_user''
      \<and> target_user_id (request ''delete_user'' ''u2'') = Some ''u2''
      \<and> identities world_admin ''u2'' \<noteq> None
      \<and> ?run = (fst ?run, snd ?run)"
    by (simp add: world_admin_def user_u1_def request_def)
  have self: "uid user_u1 \<noteq> [] \<and> target_user_id (request ''suspend_user'' ''u1'') = Some (uid user_u1)
      \<and> action (request ''suspend_user'' ''u1'') = Some ''suspend_user''"
    "uid user_u1 \<noteq> [] \<and> target_user_id (request ''delete_user'' ''u1'') = Some (uid user_u1)
      \<and> action (request ''delete_user'' ''u1'') = Some ''delete_user''"
    by (simp_all add: user_u1_def request_def)
  from delete_user_cascade [of world_admin "''u2''" user_u1 "request ''delete_user'' ''u2''"
      env_demo "fst ?run" "snd ?run"] hyps
  have deleted: "fst ?run = Inr SuccessResponse"
    "owned_refs LeadsCollection ''u2'' (snd ?run) = []"
    "owned_refs SearchesCollection ''u2'' (snd ?run) = []"
    "profiles (snd ?run) ''u2'' = None" "identities (snd ?run) ''u2'' = None"
    by blast+
  from delete_user_cascade [of world_admin "''u2''" user_u1 "request ''suspend_user'' ''u1''"
      env_demo "fst ?run" "snd ?run"] self(1)
  have suspend: "superadmin_users env_demo user_u1 (request ''suspend_user'' ''u1'') world_admin
       = (Inr (SendError 400 ''You cannot suspend your own account''), world_admin)"
    by blast
  from delete_user_cascade [of world_admin "''u2''" user_u1 "request ''delete_user'' ''u1''"
      env_demo "fst ?run" "snd ?run"] self(2)
  have delete: "superadmin_users env_demo user_u1 (request ''delete_user'' ''u1'') world_admin
       = (Inr (SendError 400 ''You cannot delete your own account''), world_admin)"
    by blast
  from before deleted suspend delete show ?thesis by blast
qed

end
